theory Spec2Isabelle
  imports Complex_Main "HOL-Library.Word"
begin

unbundle bit_operations_syntax

section \<open>Machine types\<close>

type_synonym uint8_t = "8 word"
type_synonym uint16_t = "16 word"

text \<open>An \<open>int16_t\<close> is a 16-bit pattern read in two's complement by \<open>sint\<close>.\<close>

type_synonym int16_t = "16 word"

text \<open>C's \<open>int\<close> on the ESP32 (the type every narrower operand is promoted to).\<close>

type_synonym c_int = "32 word"

section \<open>The sensor driver (LSM6DS3.h, LSM6DS3.cpp)\<close>

definition LSM6DS3_REG_WHO_AM_I :: uint8_t where "LSM6DS3_REG_WHO_AM_I = 0x0F"
definition LSM6DS3_REG_CTRL1_XL :: uint8_t where "LSM6DS3_REG_CTRL1_XL = 0x10"
definition LSM6DS3_REG_CTRL2_G :: uint8_t where "LSM6DS3_REG_CTRL2_G = 0x11"
definition LSM6DS3_REG_CTRL3_C :: uint8_t where "LSM6DS3_REG_CTRL3_C = 0x12"
definition LSM6DS3_REG_OUTX_L_G :: uint8_t where "LSM6DS3_REG_OUTX_L_G = 0x22"
definition LSM6DS3_REG_OUTX_L_XL :: uint8_t where "LSM6DS3_REG_OUTX_L_XL = 0x28"

datatype AccelBW = ACC_BW_400Hz | ACC_BW_200Hz | ACC_BW_100Hz | ACC_BW_50Hz

fun AccelBW_code :: "AccelBW \<Rightarrow> uint8_t" where
  "AccelBW_code ACC_BW_400Hz = 0x00"
| "AccelBW_code ACC_BW_200Hz = 0x01"
| "AccelBW_code ACC_BW_100Hz = 0x02"
| "AccelBW_code ACC_BW_50Hz = 0x03"

datatype AccelScale = ACC_FS_2G | ACC_FS_16G | ACC_FS_4G | ACC_FS_8G

fun AccelScale_code :: "AccelScale \<Rightarrow> uint8_t" where
  "AccelScale_code ACC_FS_2G = 0x00"
| "AccelScale_code ACC_FS_16G = 0x04"
| "AccelScale_code ACC_FS_4G = 0x08"
| "AccelScale_code ACC_FS_8G = 0x0C"

datatype AccelODR =
    ACC_ODR_POWERDOWN | ACC_ODR_13Hz | ACC_ODR_26Hz | ACC_ODR_52Hz | ACC_ODR_104Hz
  | ACC_ODR_208Hz | ACC_ODR_416Hz | ACC_ODR_833Hz | ACC_ODR_1660Hz | ACC_ODR_3330Hz
  | ACC_ODR_6660Hz | ACC_ODR_13330Hz

fun AccelODR_code :: "AccelODR \<Rightarrow> uint8_t" where
  "AccelODR_code ACC_ODR_POWERDOWN = 0x00"
| "AccelODR_code ACC_ODR_13Hz = 0x10"
| "AccelODR_code ACC_ODR_26Hz = 0x20"
| "AccelODR_code ACC_ODR_52Hz = 0x30"
| "AccelODR_code ACC_ODR_104Hz = 0x40"
| "AccelODR_code ACC_ODR_208Hz = 0x50"
| "AccelODR_code ACC_ODR_416Hz = 0x60"
| "AccelODR_code ACC_ODR_833Hz = 0x70"
| "AccelODR_code ACC_ODR_1660Hz = 0x80"
| "AccelODR_code ACC_ODR_3330Hz = 0x90"
| "AccelODR_code ACC_ODR_6660Hz = 0xA0"
| "AccelODR_code ACC_ODR_13330Hz = 0xB0"

datatype GyroScale = GYR_FS_245DPS | GYR_FS_500DPS | GYR_FS_1000DPS | GYR_FS_2000DPS

fun GyroScale_code :: "GyroScale \<Rightarrow> uint8_t" where
  "GyroScale_code GYR_FS_245DPS = 0x00"
| "GyroScale_code GYR_FS_500DPS = 0x04"
| "GyroScale_code GYR_FS_1000DPS = 0x08"
| "GyroScale_code GYR_FS_2000DPS = 0x0C"

datatype GyroODR =
    GYR_ODR_POWERDOWN | GYR_ODR_13Hz | GYR_ODR_26Hz | GYR_ODR_52Hz | GYR_ODR_104Hz
  | GYR_ODR_208Hz | GYR_ODR_416Hz | GYR_ODR_833Hz | GYR_ODR_1660Hz

fun GyroODR_code :: "GyroODR \<Rightarrow> uint8_t" where
  "GyroODR_code GYR_ODR_POWERDOWN = 0x00"
| "GyroODR_code GYR_ODR_13Hz = 0x10"
| "GyroODR_code GYR_ODR_26Hz = 0x20"
| "GyroODR_code GYR_ODR_52Hz = 0x30"
| "GyroODR_code GYR_ODR_104Hz = 0x40"
| "GyroODR_code GYR_ODR_208Hz = 0x50"
| "GyroODR_code GYR_ODR_416Hz = 0x60"
| "GyroODR_code GYR_ODR_833Hz = 0x70"
| "GyroODR_code GYR_ODR_1660Hz = 0x80"

text \<open>
  One \<open>LSM6DS3\<close> object together with the chip it talks to. The private fields are
  \<open>_csPin\<close>, \<open>_accelScale\<close> and \<open>_gyroScale\<close>; \<open>chip\<close> is the register file of the
  attached part as the SPI bus shows it: an address byte with bit 7 clear followed by a
  data byte stores the data byte at the 7-bit address, an address byte with bit 7 set
  reads from the 7-bit address onwards, one register per further byte. \<open>spi_writes\<close>
  records every write transaction (address, data) in the order it was sent, so that
  writing a register is visible even when the value stored does not change.
\<close>

record LSM6DS3 =
  csPin :: uint8_t
  accelScale :: AccelScale
  gyroScale :: GyroScale
  chip :: "uint8_t \<Rightarrow> uint8_t"
  spi_writes :: "(uint8_t \<times> uint8_t) list"

text \<open>The constructor: scales start at \<open>ACC_FS_2G\<close> and \<open>GYR_FS_245DPS\<close>.\<close>

definition LSM6DS3_new :: "uint8_t \<Rightarrow> (uint8_t \<Rightarrow> uint8_t) \<Rightarrow> LSM6DS3" where
  "LSM6DS3_new pin regs =
     \<lparr>csPin = pin, accelScale = ACC_FS_2G, gyroScale = GYR_FS_245DPS, chip = regs,
      spi_writes = []\<rparr>"

definition writeByte :: "LSM6DS3 \<Rightarrow> uint8_t \<Rightarrow> uint8_t \<Rightarrow> LSM6DS3" where
  "writeByte dev reg v =
     dev\<lparr>chip := (chip dev)((reg AND 0x7F) := v),
         spi_writes := spi_writes dev @ [(reg AND 0x7F, v)]\<rparr>"

definition readByte :: "LSM6DS3 \<Rightarrow> uint8_t \<Rightarrow> uint8_t" where
  "readByte dev reg = chip dev ((reg OR 0x80) AND 0x7F)"

definition readBytes :: "LSM6DS3 \<Rightarrow> uint8_t \<Rightarrow> nat \<Rightarrow> uint8_t list" where
  "readBytes dev startReg len =
     map (\<lambda>i. chip dev (((startReg OR 0x80) AND 0x7F) + of_nat i)) [0..<len]"

subsection \<open>Text written to the serial port\<close>

definition ascii :: "string \<Rightarrow> uint8_t list" where
  "ascii s = map (\<lambda>c. of_nat (of_char c)) s"

definition hex_digit :: "uint8_t \<Rightarrow> uint8_t" where
  "hex_digit d = (if d < 10 then 0x30 + d else 0x37 + d)"

text \<open>\<open>Serial.println(b, HEX)\<close> for a byte: upper-case digits, no padding, CR LF.\<close>

definition println_HEX :: "uint8_t \<Rightarrow> uint8_t list" where
  "println_HEX b =
     (if b < 16 then [hex_digit b] else [hex_digit (drop_bit 4 b), hex_digit (b AND 0x0F)])
     @ [0x0D, 0x0A]"

subsection \<open>Initialisation\<close>

text \<open>
  \<open>LSM6DS3::begin\<close>. The result is the returned flag, the object (and chip) afterwards
  and the bytes printed on \<open>Serial\<close>.
\<close>

definition begin_sensor ::
  "AccelODR \<Rightarrow> AccelScale \<Rightarrow> AccelBW \<Rightarrow> GyroODR \<Rightarrow> GyroScale \<Rightarrow> LSM6DS3
     \<Rightarrow> bool \<times> LSM6DS3 \<times> uint8_t list" where
  "begin_sensor aOdr aScale aBw gOdr gScale dev =
     (let whoami = readByte dev LSM6DS3_REG_WHO_AM_I in
      if whoami \<noteq> 0x6A then
        (False, dev, ascii ''WHO_AM_I mismatch: '' @ println_HEX whoami)
      else
        let dev1 = dev\<lparr>accelScale := aScale, gyroScale := gScale\<rparr>;
            ctrl1 = AccelODR_code aOdr OR AccelScale_code aScale OR AccelBW_code aBw;
            dev2 = writeByte dev1 LSM6DS3_REG_CTRL1_XL ctrl1;
            ctrl2 = GyroODR_code gOdr OR GyroScale_code gScale;
            dev3 = writeByte dev2 LSM6DS3_REG_CTRL2_G ctrl2;
            dev4 = writeByte dev3 LSM6DS3_REG_CTRL3_C (0x40 OR 0x04)
        in (True, dev4, []))"

text \<open>
  \<open>LSM6DS3::readAccelRaw\<close>: six bytes from \<open>OUTX_L_XL\<close>, low byte first; each pair is
  combined as \<open>(int16_t)((buf[1] << 8) | buf[0])\<close>.
\<close>

definition combine_le :: "uint8_t \<Rightarrow> uint8_t \<Rightarrow> int16_t" where
  "combine_le lo hi =
     ucast (push_bit 8 (ucast hi :: c_int) OR (ucast lo :: c_int))"

definition readAccelRaw :: "LSM6DS3 \<Rightarrow> int16_t \<times> int16_t \<times> int16_t" where
  "readAccelRaw dev =
     (let buf = readBytes dev LSM6DS3_REG_OUTX_L_XL 6 in
      (combine_le (buf ! 0) (buf ! 1),
       combine_le (buf ! 2) (buf ! 3),
       combine_le (buf ! 4) (buf ! 5)))"

section \<open>The firmware sketch (lsm6ds3_esp32c6.ino)\<close>

definition HEADER :: uint8_t where "HEADER = 0x7F"
definition FOOTER :: uint8_t where "FOOTER = 0xFE"

definition ACC_HEADER :: nat where "ACC_HEADER = 1 + 2"
definition ACC_CHECKSUM_LEN :: nat where "ACC_CHECKSUM_LEN = 2"
definition ACC_FOOTER :: nat where "ACC_FOOTER = 1"

text \<open>
  The globals of the sketch that the frame encoder and the command loop touch. The array
  \<open>send_data\<close> is a fixed region of memory, modelled as a function from index to byte;
  \<open>serial_out\<close> collects every byte written to \<open>Serial\<close>, \<open>serial_in\<close> holds the
  bytes received and not yet read. The number of sensors \<open>IMU_NUM\<close> is a build-time
  constant (7 in the repository, with the remark that the pin table changes with it): here
  it is the length of \<open>imuSensors\<close>.
\<close>

record firmware =
  imuSensors :: "LSM6DS3 list"
  send_data :: "nat \<Rightarrow> uint8_t"
  active :: bool
  g_seq :: uint16_t
  serial_out :: "uint8_t list"
  serial_in :: "uint8_t list"

definition IMU_NUM :: "firmware \<Rightarrow> nat" where
  "IMU_NUM fw = length (imuSensors fw)"

text \<open>The firmware's \<open>DATA_LEN\<close>: the length of one frame.\<close>

definition fw_DATA_LEN :: "firmware \<Rightarrow> nat" where
  "fw_DATA_LEN fw = ACC_HEADER + 6 * IMU_NUM fw + ACC_CHECKSUM_LEN + ACC_FOOTER"

function calcChecksum_loop :: "(nat \<Rightarrow> uint8_t) \<Rightarrow> nat \<Rightarrow> nat \<Rightarrow> uint16_t \<Rightarrow> uint16_t" where
  "calcChecksum_loop buf len i acc =
     (if i < len then calcChecksum_loop buf len (i + 1) (acc + ucast (buf i)) else acc)"
  by pat_completeness auto
termination
  by (relation "measure (\<lambda>(buf, len, i, acc). len - i)") auto

declare calcChecksum_loop.simps [simp del]

definition calcChecksum :: "(nat \<Rightarrow> uint8_t) \<Rightarrow> nat \<Rightarrow> uint16_t" where
  "calcChecksum buf len = calcChecksum_loop buf len 0 0"

text \<open>
  \<open>(x >> 8) & 0xFF\<close> and \<open>x & 0xFF\<close> stored into a byte. The operand is promoted to
  \<open>int\<close> first: an \<open>int16_t\<close> is sign-extended and shifted arithmetically, a
  \<open>uint16_t\<close> is zero-extended.
\<close>

definition hi_byte_int16 :: "int16_t \<Rightarrow> uint8_t" where
  "hi_byte_int16 x = ucast (signed_drop_bit 8 (scast x :: c_int) AND 0xFF)"

definition lo_byte_int16 :: "int16_t \<Rightarrow> uint8_t" where
  "lo_byte_int16 x = ucast ((scast x :: c_int) AND 0xFF)"

definition hi_byte_uint16 :: "uint16_t \<Rightarrow> uint8_t" where
  "hi_byte_uint16 x = ucast (drop_bit 8 (ucast x :: c_int) AND 0xFF)"

definition lo_byte_uint16 :: "uint16_t \<Rightarrow> uint8_t" where
  "lo_byte_uint16 x = ucast ((ucast x :: c_int) AND 0xFF)"

text \<open>The data loop of \<open>sendData\<close>, from sensor \<open>i\<close> on.\<close>

function sendData_loop :: "LSM6DS3 list \<Rightarrow> nat \<Rightarrow> (nat \<Rightarrow> uint8_t) \<Rightarrow> (nat \<Rightarrow> uint8_t)" where
  "sendData_loop sensors i buf =
     (if i < length sensors then
        (case readAccelRaw (sensors ! i) of (ax_raw, ay_raw, az_raw) \<Rightarrow>
           let base = ACC_HEADER + i * 6 in
           sendData_loop sensors (i + 1)
             (buf(base + 0 := hi_byte_int16 ax_raw,
                  base + 1 := lo_byte_int16 ax_raw,
                  base + 2 := hi_byte_int16 ay_raw,
                  base + 3 := lo_byte_int16 ay_raw,
                  base + 4 := hi_byte_int16 az_raw,
                  base + 5 := lo_byte_int16 az_raw)))
      else buf)"
  by pat_completeness auto
termination
  by (relation "measure (\<lambda>(sensors, i, buf). length sensors - i)") auto

declare sendData_loop.simps [simp del]

text \<open>The timer callback.\<close>

definition sendData :: "firmware \<Rightarrow> firmware" where
  "sendData fw =
     (if \<not> active fw then fw
      else
        let buf0 = (send_data fw)(0 := HEADER);
            seq = g_seq fw;
            buf1 = buf0(1 := hi_byte_uint16 seq, 2 := lo_byte_uint16 seq);
            buf2 = sendData_loop (imuSensors fw) 0 buf1;
            payload_end = ACC_HEADER + 6 * IMU_NUM fw;
            checksum = calcChecksum buf2 payload_end;
            buf3 = buf2(payload_end + 0 := hi_byte_uint16 checksum,
                        payload_end + 1 := lo_byte_uint16 checksum,
                        payload_end + 2 := FOOTER)
        in fw\<lparr>g_seq := seq + 1,
                send_data := buf3,
                serial_out := serial_out fw @ map buf3 [0..<fw_DATA_LEN fw]\<rparr>)"

text \<open>
  The one call of \<open>begin\<close> that the sketch makes, in \<open>setup\<close> and in
  \<open>initializeSensors\<close>, always with the same arguments.
\<close>

definition begin_call :: "LSM6DS3 \<Rightarrow> bool \<times> LSM6DS3 \<times> uint8_t list" where
  "begin_call =
     begin_sensor ACC_ODR_1660Hz ACC_FS_16G ACC_BW_400Hz GYR_ODR_416Hz GYR_FS_2000DPS"

text \<open>
  \<open>initializeSensors\<close>: \<open>begin\<close> on every sensor in index order, the result ignored.
\<close>

fun initializeSensors_loop :: "LSM6DS3 list \<Rightarrow> LSM6DS3 list \<times> uint8_t list" where
  "initializeSensors_loop [] = ([], [])"
| "initializeSensors_loop (dev # devs) =
     (case begin_call dev of
        (ok, dev', printed) \<Rightarrow>
          (case initializeSensors_loop devs of
             (devs', printed') \<Rightarrow> (dev' # devs', printed @ printed')))"

definition initializeSensors :: "firmware \<Rightarrow> firmware" where
  "initializeSensors fw =
     (case initializeSensors_loop (imuSensors fw) of
        (devs, printed) \<Rightarrow> fw\<lparr>imuSensors := devs, serial_out := serial_out fw @ printed\<rparr>)"

definition char_byte :: "char \<Rightarrow> uint8_t" where
  "char_byte c = of_nat (of_char c)"

text \<open>One pass of \<open>loop()\<close>: at most one command byte is read and acted on.\<close>

definition loop :: "firmware \<Rightarrow> firmware" where
  "loop fw =
     (case serial_in fw of
        [] \<Rightarrow> fw
      | chr # rest \<Rightarrow>
          let fw1 = fw\<lparr>serial_in := rest\<rparr> in
          if chr = char_byte CHR ''s'' then (initializeSensors fw1)\<lparr>active := True\<rparr>
          else if chr = char_byte CHR ''e'' then fw1\<lparr>active := False\<rparr>
          else if chr = char_byte CHR ''r'' then fw1\<lparr>active := True\<rparr>
          else fw1)"

section \<open>The host sketch (measurement_LSM6DS3TR.pde, Accel.pde)\<close>

text \<open>
  Java's \<open>float\<close> is modelled by \<open>real\<close>: the arithmetic of the model is exact and
  the rounding of each float operation is not represented, with one exception. The window
  length \<open>DATA_LEN\<close> is an integer cut out of a float product, so there the rounding
  decides the result, and that computation is modelled with the rounding of binary32
  (\<open>float32\<close> below). Java's \<open>int\<close> is a 32-bit word where bits are manipulated and
  an \<open>int\<close> where it is only a count or a value.

  The constants at the top of the sketch that are marked as settings (\<open>change this!\<close>)
  are the fields of a configuration; \<open>sketch_config\<close> holds the values the repository
  has.
\<close>

record config =
  FULL_SCALE :: real
  SAMPLING_RATE :: real
  SENSOR_NUM :: nat
  FSR_NUM :: nat
  VIBRATION_FREQ :: real
  measurementSensor :: nat

definition sketch_config :: config where
  "sketch_config = \<lparr>FULL_SCALE = 16.0, SAMPLING_RATE = 1660.0, SENSOR_NUM = 7, FSR_NUM = 0,
     VIBRATION_FREQ = 70, measurementSensor = 1\<rparr>"

text \<open>
  The result of a float operation: the exact result rounded to the nearest number with a
  24-bit significand, ties to the even significand (IEEE 754 binary32, for results in the
  normal range; overflow, subnormal numbers, infinities and NaN are not modelled).
\<close>

definition round_half_even :: "real \<Rightarrow> int" where
  "round_half_even q =
     (let f = \<lfloor>q\<rfloor>; r = q - of_int f in
      if r < 1 / 2 then f
      else if 1 / 2 < r then f + 1
      else if even f then f else f + 1)"

definition float32 :: "real \<Rightarrow> real" where
  "float32 x =
     (if x = 0 then 0
      else
        let e = \<lfloor>log 2 \<bar>x\<bar>\<rfloor> - 23 in
        of_int (round_half_even (x / 2 powr of_int e)) * 2 powr of_int e)"

text \<open>
  \<open>DURATION = (1.0 / VIBRATION_FREQ) * 10.0\<close>, a float division and a float
  multiplication.
\<close>

definition DURATION :: "config \<Rightarrow> real" where
  "DURATION cfg = float32 (float32 (1 / VIBRATION_FREQ cfg) * 10)"

text \<open>
  \<open>DATA_LEN = (int)(SAMPLING_RATE * DURATION)\<close>: a float multiplication, then the cast,
  which truncates; for the non-negative products that give a usable array length this is
  the floor. (A frequency of zero makes the sketch divide by zero and is outside the
  model.)
\<close>

definition DATA_LEN :: "config \<Rightarrow> nat" where
  "DATA_LEN cfg = nat \<lfloor>float32 (SAMPLING_RATE cfg * DURATION cfg)\<rfloor>"

subsection \<open>Accel.pde\<close>

record Accel =
  ax :: real
  ay :: real
  az :: real

definition convertToG :: "config \<Rightarrow> int \<Rightarrow> real" where
  "convertToG cfg a = of_int a * (2.0 * FULL_SCALE cfg) / 2 ^ 16"

definition convertToMS2 :: "real \<Rightarrow> real" where
  "convertToMS2 ag = ag * 9.8"

text \<open>The constructor \<open>Accel(int, int, int)\<close>.\<close>

definition Accel_of_raw :: "config \<Rightarrow> int \<Rightarrow> int \<Rightarrow> int \<Rightarrow> Accel" where
  "Accel_of_raw cfg rx ry rz =
     \<lparr>ax = convertToMS2 (convertToG cfg rx),
      ay = convertToMS2 (convertToG cfg ry),
      az = convertToMS2 (convertToG cfg rz)\<rparr>"

text \<open>\<open>convertRawAccel\<close>; the three-element arrays are triples.\<close>

definition convertRawAccel :: "config \<Rightarrow> int \<times> int \<times> int \<Rightarrow> real \<times> real \<times> real" where
  "convertRawAccel cfg rawData =
     (case rawData of (r0, r1, r2) \<Rightarrow>
        (of_int r0 * (2 * FULL_SCALE cfg) / 2 ^ 16,
         of_int r1 * (2 * FULL_SCALE cfg) / 2 ^ 16,
         of_int r2 * (2 * FULL_SCALE cfg) / 2 ^ 16))"

subsection \<open>serialEvent\<close>

text \<open>
  \<open>(buffer[k] << 8) + int(buffer[k + 1])\<close> on Java bytes: the first byte is promoted to
  \<open>int\<close> with its sign and shifted, Processing's \<open>int(byte)\<close> is \<open>b & 0xff\<close>.
\<close>

definition rawAccel_of_bytes :: "uint8_t \<Rightarrow> uint8_t \<Rightarrow> int" where
  "rawAccel_of_bytes b0 b1 =
     sint (push_bit 8 (scast b0 :: 32 word) + ((scast b1 :: 32 word) AND 0xFF))"

text \<open>
  The three values of sensor \<open>i\<close> in a buffer whose payload starts at index \<open>hdr\<close>
  (the local variable \<open>header\<close> of \<open>serialEvent\<close>, which is 1).
\<close>

definition rawAccels_at :: "nat \<Rightarrow> uint8_t list \<Rightarrow> nat \<Rightarrow> int \<times> int \<times> int" where
  "rawAccels_at hdr buffer i =
     (rawAccel_of_bytes (buffer ! (hdr + 0 + i * 6)) (buffer ! (hdr + 1 + i * 6)),
      rawAccel_of_bytes (buffer ! (hdr + 2 + i * 6)) (buffer ! (hdr + 3 + i * 6)),
      rawAccel_of_bytes (buffer ! (hdr + 4 + i * 6)) (buffer ! (hdr + 5 + i * 6)))"

definition header :: nat where "header = 1"
definition footer :: nat where "footer = 1"

datatype host_error = IndexOutOfBounds | NullPointer

text \<open>
  A \<open>PrintWriter\<close>: the lines printed so far, and whether it has been closed (printing to
  a closed writer is dropped without an exception). A line is a literal text or a row of
  formatted numbers; the cell says how the number is formatted (\<open>%d\<close>, \<open>%.3f\<close>, or
  \<open>print(float)\<close>), the digits themselves are not modelled.
\<close>

datatype cell = IntCell int | Fixed3Cell real | FloatCell real

datatype line = TextLine string | CellLine "cell list"

record writer =
  lines :: "line list"
  closed :: bool

definition createWriter :: writer where
  "createWriter = \<lparr>lines = [], closed = False\<rparr>"

definition println :: "writer \<Rightarrow> line \<Rightarrow> writer" where
  "println w l = (if closed w then w else w\<lparr>lines := lines w @ [l]\<rparr>)"

definition close :: "writer \<Rightarrow> writer" where
  "close w = w\<lparr>closed := True\<rparr>"

text \<open>
  The globals of the sketch that receiving and recording touch. \<open>port_in\<close> holds the
  bytes received on the serial port and not yet read (\<open>available()\<close> is its length),
  \<open>port_out\<close> the bytes written to it. \<open>accelOutputWriter\<close> is \<open>None\<close> while the
  variable is \<open>null\<close>.
\<close>

record host =
  isSerialReady :: bool
  port_in :: "uint8_t list"
  port_out :: "uint8_t list"
  rawAccels :: "int \<times> int \<times> int"
  accels :: "real \<times> real \<times> real"
  accelLists :: "Accel list list"
  isAccelMeasure :: bool
  isRealtimeRec :: bool
  accelMeasureList :: "Accel list"
  timestamp :: "int list"
  accelOutputWriter :: "writer option"

text \<open>
  \<open>list.add(a); if (list.size() > DATA_LEN) list.remove(0);\<close> on one history.
\<close>

definition add_evict :: "nat \<Rightarrow> 'a list \<Rightarrow> 'a \<Rightarrow> 'a list" where
  "add_evict W xs a = (let ys = xs @ [a] in if length ys > W then tl ys else ys)"

text \<open>
  The loop over the sensors, from sensor \<open>i\<close> on. \<open>now\<close> is the value of
  \<open>(int)(System.nanoTime() / 1000)\<close>, read at most once in a call (for the recorded
  sensor). \<open>accelLists.get(i)\<close> raises when the list has no entry \<open>i\<close>.
\<close>

function serialEvent_loop ::
  "config \<Rightarrow> int \<Rightarrow> uint8_t list \<Rightarrow> nat \<Rightarrow> host \<Rightarrow> host_error + host" where
  "serialEvent_loop cfg now buffer i st =
     (if i < SENSOR_NUM cfg then
        let raw = rawAccels_at header buffer i;
            st1 = st\<lparr>rawAccels := raw, accels := convertRawAccel cfg raw\<rparr>;
            a = (case raw of (r0, r1, r2) \<Rightarrow> Accel_of_raw cfg r0 r1 r2)
        in
          if i < length (accelLists st1) then
            let st2 = st1\<lparr>accelLists :=
                        (accelLists st1)[i := add_evict (DATA_LEN cfg) (accelLists st1 ! i) a]\<rparr>;
                st3 = (if i = measurementSensor cfg \<and> (isAccelMeasure st2 \<or> isRealtimeRec st2)
                       then st2\<lparr>accelMeasureList := accelMeasureList st2 @ [a],
                                timestamp := timestamp st2 @ [now]\<rparr>
                       else st2)
            in serialEvent_loop cfg now buffer (i + 1) st3
          else Inl IndexOutOfBounds
      else Inr st)"
  by pat_completeness auto
termination
  by (relation "measure (\<lambda>(cfg, now, buffer, i, st). SENSOR_NUM cfg - i)") auto

declare serialEvent_loop.simps [simp del]

definition frame_len :: "config \<Rightarrow> nat" where
  "frame_len cfg = header + 6 * SENSOR_NUM cfg + 2 * FSR_NUM cfg + footer"

definition serialEvent :: "config \<Rightarrow> int \<Rightarrow> host \<Rightarrow> host_error + host" where
  "serialEvent cfg now st =
     (if \<not> isSerialReady st then Inr st
      else if length (port_in st) > frame_len cfg - 1 then
        let buffer = take (frame_len cfg) (port_in st);
            st1 = st\<lparr>port_in := drop (frame_len cfg) (port_in st)\<rparr>
        in serialEvent_loop cfg now buffer 0 st1
      else Inr st)"

text \<open>
  The runtime calls \<open>serialEvent\<close> once for every serial event. A run of such calls, one
  for each clock reading in \<open>nows\<close>; an exception ends the run.
\<close>

fun serialEvents :: "config \<Rightarrow> int list \<Rightarrow> host \<Rightarrow> host_error + host" where
  "serialEvents cfg [] st = Inr st"
| "serialEvents cfg (now # nows) st =
     (case serialEvent cfg now st of
        Inl e \<Rightarrow> Inl e
      | Inr st' \<Rightarrow> serialEvents cfg nows st')"

subsection \<open>keyPressed: recording\<close>

text \<open>The loop that prints one row per recorded timestamp, from row \<open>i\<close> on.\<close>

function write_rows :: "int list \<Rightarrow> Accel list \<Rightarrow> nat \<Rightarrow> writer \<Rightarrow> host_error + writer" where
  "write_rows ts al i w =
     (if i < length ts then
        if i < length al then
          write_rows ts al (i + 1) (println w (CellLine [IntCell (ts ! i), Fixed3Cell (az (al ! i))]))
        else Inl IndexOutOfBounds
      else Inr w)"
  by pat_completeness auto
termination
  by (relation "measure (\<lambda>(ts, al, i, w). length ts - i)") auto

declare write_rows.simps [simp del]

text \<open>
  \<open>keyPressed\<close>. The keys \<open>s\<close> and \<open>e\<close> send a command byte, \<open>r\<close> starts and \<open>o\<close>
  stops the recording. The remaining keys (\<open>f\<close>, \<open>c\<close>, \<open>t\<close>, \<open>v\<close>, \<open>q\<close>, \<open>a\<close>,
  \<open>w\<close>) start threads or send messages to the stimulus and leave the fields of \<open>host\<close>
  as they are.
\<close>

definition keyPressed :: "char \<Rightarrow> host \<Rightarrow> host_error + host" where
  "keyPressed key st =
     (if key = CHR ''s'' then Inr (st\<lparr>port_out := port_out st @ [char_byte CHR ''s'']\<rparr>)
      else if key = CHR ''e'' then Inr (st\<lparr>port_out := port_out st @ [char_byte CHR ''e'']\<rparr>)
      else if key = CHR ''r'' then
        (if isAccelMeasure st then Inr st
         else Inr (st\<lparr>accelOutputWriter := Some createWriter,
                       accelMeasureList := [],
                       timestamp := [],
                       isRealtimeRec := True\<rparr>))
      else if key = CHR ''o'' then
        (if isAccelMeasure st then Inr st
         else
           let st1 = st\<lparr>isRealtimeRec := False\<rparr> in
           case accelOutputWriter st1 of
             None \<Rightarrow> Inl NullPointer
           | Some w \<Rightarrow>
               (case write_rows (timestamp st1) (accelMeasureList st1) 0
                       (println w (TextLine ''timestamp,az'')) of
                  Inl e \<Rightarrow> Inl e
                | Inr w' \<Rightarrow> Inr (st1\<lparr>accelOutputWriter := Some (close w')\<rparr>)))
      else Inr st)"

subsection \<open>Quadrature detection\<close>

text \<open>The reference tables that \<open>setup\<close> fills, with \<open>_amp = 1\<close> and \<open>_phase = 0\<close>.\<close>

definition setup_SS :: "config \<Rightarrow> real list" where
  "setup_SS cfg =
     map (\<lambda>i. 1 * sin (2 * pi * VIBRATION_FREQ cfg * (real i * 1 / SAMPLING_RATE cfg) + 0))
       [0..<DATA_LEN cfg]"

definition setup_CC :: "config \<Rightarrow> real list" where
  "setup_CC cfg =
     map (\<lambda>i. 1 * cos (2 * pi * VIBRATION_FREQ cfg * (real i * 1 / SAMPLING_RATE cfg) + 0))
       [0..<DATA_LEN cfg]"

text \<open>
  The loop of \<open>calcSSandCCsum\<close>, from index \<open>i\<close> on; \<open>al.get(i)\<close> raises on a history
  shorter than the window.
\<close>

function calcSSandCCsum_loop ::
  "config \<Rightarrow> real list \<Rightarrow> real list \<Rightarrow> Accel list \<Rightarrow> nat \<Rightarrow> real \<Rightarrow> real
     \<Rightarrow> host_error + real \<times> real" where
  "calcSSandCCsum_loop cfg SS CC al i SSsum CCsum =
     (if i < DATA_LEN cfg then
        if i < length al then
          calcSSandCCsum_loop cfg SS CC al (i + 1)
            (SSsum + SS ! i * az (al ! i)) (CCsum + CC ! i * az (al ! i))
        else Inl IndexOutOfBounds
      else Inr (SSsum, CCsum))"
  by pat_completeness auto
termination
  by (relation "measure (\<lambda>(cfg, SS, CC, al, i, SSsum, CCsum). DATA_LEN cfg - i)") auto

declare calcSSandCCsum_loop.simps [simp del]

definition calcSSandCCsum ::
  "config \<Rightarrow> real list \<Rightarrow> real list \<Rightarrow> Accel list \<Rightarrow> host_error + real \<times> real" where
  "calcSSandCCsum cfg SS CC al = calcSSandCCsum_loop cfg SS CC al 0 0 0"

text \<open>
  The library function \<open>atan2(y, x)\<close> on finite arguments: the angle of the point
  \<open>(x, y)\<close> in \<open>(-\<pi>, \<pi>]\<close>, and 0 at the origin.
\<close>

definition atan2 :: "real \<Rightarrow> real \<Rightarrow> real" where
  "atan2 y x =
     (if 0 < x then arctan (y / x)
      else if x < 0 then (if 0 \<le> y then arctan (y / x) + pi else arctan (y / x) - pi)
      else if 0 < y then pi / 2
      else if y < 0 then - pi / 2
      else 0)"

definition detectPhase :: "real \<Rightarrow> real \<Rightarrow> real" where
  "detectPhase SSsum CCsum = atan2 CCsum SSsum"

definition detectAmp :: "config \<Rightarrow> real \<Rightarrow> real \<Rightarrow> real" where
  "detectAmp cfg SSsum CCsum = sqrt (SSsum * SSsum + CCsum * CCsum) * 2.0 / real (DATA_LEN cfg)"

subsection \<open>The amplitude sweep\<close>

text \<open>
  \<open>measureAmpWithQD\<close> runs in its own thread while the serial thread keeps filling the
  histories and the drawing thread keeps updating \<open>maxAmps\<close>. What a step of the sweep
  reads is given by \<open>obs\<close>: for the step with amplitude setting \<open>sineAmp\<close>, the content
  of \<open>accelLists.get(measurementSensor)\<close> and the value of \<open>maxAmps[measurementSensor]\<close>
  at the moment the step reads them.
\<close>

text \<open>The loop variable of the sweep gets closer to its bound by a fixed step.\<close>

lemma sweep_measure:
  fixes a :: real
  assumes "a \<le> 1"
  shows "nat (\<lfloor>(1 - (a + 1 / 100)) * 100\<rfloor> + 1) < nat (\<lfloor>(1 - a) * 100\<rfloor> + 1)"
proof -
  have "(1 - (a + 1 / 100)) * 100 = (1 - a) * 100 - 1"
    by (simp add: algebra_simps)
  then have "\<lfloor>(1 - (a + 1 / 100)) * 100\<rfloor> = \<lfloor>(1 - a) * 100\<rfloor> - 1"
    using floor_diff_one [of "(1 - a) * 100"] by (simp only:)
  moreover have "0 \<le> \<lfloor>(1 - a) * 100\<rfloor>"
    using assms by simp
  ultimately show ?thesis
    by simp
qed

function sweep_loop ::
  "config \<Rightarrow> real list \<Rightarrow> real list \<Rightarrow> (real \<Rightarrow> Accel list \<times> real) \<Rightarrow> real \<Rightarrow> writer
     \<Rightarrow> host_error + writer" where
  "sweep_loop cfg SS CC obs sineAmp w =
     (if sineAmp \<le> 1.0 then
        (case calcSSandCCsum cfg SS CC (fst (obs sineAmp)) of
           Inl e \<Rightarrow> Inl e
         | Inr (SSsum, CCsum) \<Rightarrow>
             let phase = detectPhase SSsum CCsum;
                 amp = detectAmp cfg SSsum CCsum
             in sweep_loop cfg SS CC obs (sineAmp + 0.01)
                  (println w (CellLine [FloatCell (VIBRATION_FREQ cfg), FloatCell sineAmp,
                     FloatCell amp, FloatCell (snd (obs sineAmp))])))
      else Inr w)"
  by pat_completeness auto
termination
  apply (relation "measure (\<lambda>(cfg, SS, CC, obs, sineAmp, w). nat (\<lfloor>(1 - sineAmp) * 100\<rfloor> + 1))")
   apply simp
  subgoal for cfg SS CC obs sineAmp w
    using sweep_measure [of sineAmp] by simp
  done

declare sweep_loop.simps [simp del]

definition measureAmpWithQD ::
  "config \<Rightarrow> real list \<Rightarrow> real list \<Rightarrow> (real \<Rightarrow> Accel list \<times> real) \<Rightarrow> host_error + writer" where
  "measureAmpWithQD cfg SS CC obs =
     (case sweep_loop cfg SS CC obs 0.0
             (println createWriter
                (TextLine ''frequency,amp_setting,qd_amp [m/s^2],max_amp [m/s^2]'')) of
        Inl e \<Rightarrow> Inl e
      | Inr w \<Rightarrow> Inr (close w))"

section \<open>The wire frame as the specification words it\<close>

text \<open>
  A 16-bit field in big-endian order: the high eight bits first.
\<close>

definition big_endian16 :: "16 word \<Rightarrow> uint8_t list" where
  "big_endian16 x = [ucast (drop_bit 8 x), ucast x]"

text \<open>One sensor's part of the payload: \<open>ax\<close>, \<open>ay\<close>, \<open>az\<close>, each big-endian.\<close>

definition triple_bytes :: "int16_t \<times> int16_t \<times> int16_t \<Rightarrow> uint8_t list" where
  "triple_bytes t = (case t of (x, y, z) \<Rightarrow> big_endian16 x @ big_endian16 y @ big_endian16 z)"

text \<open>
  The frame of the specification: header \<open>0x7F\<close>, the sequence counter, the payload in
  sensor order, the checksum (the sum of all bytes before it, modulo 65536) and the footer
  \<open>0xFE\<close>.
\<close>

definition additive_checksum :: "uint8_t list \<Rightarrow> uint16_t" where
  "additive_checksum body = of_nat (sum_list (map unat body) mod 65536)"

definition wire_frame :: "uint16_t \<Rightarrow> (int16_t \<times> int16_t \<times> int16_t) list \<Rightarrow> uint8_t list" where
  "wire_frame seq samples =
     (let body = [0x7F] @ big_endian16 seq @ concat (map triple_bytes samples)
      in body @ big_endian16 (additive_checksum body) @ [0xFE])"


section \<open>Concrete devices used to run the definitions\<close>

text \<open>
  A chip that answers \<open>0x6A\<close> at \<open>WHO_AM_I\<close> and holds the acceleration
  \<open>(0x1234, -32768, 32767)\<close> in its output registers, everything else zero.
\<close>

definition chip0 :: "uint8_t \<Rightarrow> uint8_t" where
  "chip0 = (\<lambda>a. 0)(0x0F := 0x6A, 0x28 := 0x34, 0x29 := 0x12, 0x2A := 0x00, 0x2B := 0x80,
     0x2C := 0xFF, 0x2D := 0x7F)"

text \<open>A bus with no chip answering: every read returns \<open>0xFF\<close>.\<close>

definition chip_absent :: "uint8_t \<Rightarrow> uint8_t" where
  "chip_absent = (\<lambda>a. 0xFF)"

text \<open>
  A one-sensor build that is streaming, with the sequence counter at its last value, and
  the same build idle with the command \<open>s\<close> waiting.
\<close>

definition fw_streaming :: firmware where
  "fw_streaming = \<lparr>imuSensors = [LSM6DS3_new 0 chip0], send_data = (\<lambda>i. 0), active = True,
     g_seq = 0xFFFF, serial_out = [], serial_in = []\<rparr>"

definition fw_start_pending :: firmware where
  "fw_start_pending = \<lparr>imuSensors = [LSM6DS3_new 0 chip0], send_data = (\<lambda>i. 0),
     active = False, g_seq = 0, serial_out = [], serial_in = [char_byte CHR ''s'']\<rparr>"

section \<open>Sequence tracking on the host\<close>

text \<open>
  Modelled from the spec: the size of a gap between two accepted sequence numbers. The
  host that checks the sequence counter is the Python program under
  \<open>python/measurement_imu\<close>, which is not among the sources (the Processing sketch reads
  no sequence field), so this follows the words of the specification: a gap of
  \<open>((new_seq - last_seq) mod 65536) - 1\<close>.
\<close>

definition seq_gap :: "int \<Rightarrow> int \<Rightarrow> int" where
  "seq_gap last_seq new_seq = (new_seq - last_seq) mod 65536 - 1"

text \<open>
  Modelled from the spec: the sequence tracking of that same missing Python host. Keep the
  last accepted sequence number; when \<open>(new_seq - last_seq) mod 65536\<close> is not 1, report
  the gap; on the first frame there is no last number, the gap is 0 and nothing is
  reported; the last number is updated in every case. The state is \<open>None\<close> before the
  first accepted frame. The result is the reported gap, if any, and the new state.
\<close>

definition track_seq :: "int option \<Rightarrow> int \<Rightarrow> int option \<times> int option" where
  "track_seq prev new_seq =
     (case prev of
        None \<Rightarrow> (None, Some new_seq)
      | Some last_seq \<Rightarrow>
          (if (new_seq - last_seq) mod 65536 \<noteq> 1 then Some (seq_gap last_seq new_seq) else None,
           Some new_seq))"

text \<open>
  Modelled from the spec: the tracking of the missing Python host applied to a run of
  accepted sequence numbers; the result is the list of gaps reported, in order, and the
  final state.
\<close>

fun track_all :: "int option \<Rightarrow> int list \<Rightarrow> int list \<times> int option" where
  "track_all prev [] = ([], prev)"
| "track_all prev (new_seq # rest) =
     (case track_seq prev new_seq of
        (report, prev') \<Rightarrow>
          (case track_all prev' rest of
             (reports, final) \<Rightarrow>
               ((case report of None \<Rightarrow> [] | Some g \<Rightarrow> [g]) @ reports, final)))"

section \<open>Helpers for stating what the host does\<close>

text \<open>The sample that \<open>serialEvent\<close> builds for sensor \<open>i\<close> from a buffer.\<close>

definition sample_at :: "config \<Rightarrow> uint8_t list \<Rightarrow> nat \<Rightarrow> Accel" where
  "sample_at cfg buffer i =
     (case rawAccels_at header buffer i of (r0, r1, r2) \<Rightarrow> Accel_of_raw cfg r0 r1 r2)"

text \<open>The condition under which the recorded sensor's samples are kept.\<close>

definition recording :: "host \<Rightarrow> bool" where
  "recording st \<longleftrightarrow> isAccelMeasure st \<or> isRealtimeRec st"

text \<open>
  What the sensor loop of \<open>serialEvent\<close> has done to the state when it was entered at
  sensor \<open>i\<close> with state \<open>st\<close> and left with state \<open>st'\<close>.
\<close>

definition block_effect :: "config \<Rightarrow> int \<Rightarrow> uint8_t list \<Rightarrow> nat \<Rightarrow> host \<Rightarrow> host \<Rightarrow> bool" where
  "block_effect cfg now buffer i st st' \<longleftrightarrow>
     length (accelLists st') = length (accelLists st)
     \<and> (\<forall>j < length (accelLists st). accelLists st' ! j =
           (if i \<le> j \<and> j < SENSOR_NUM cfg
            then add_evict (DATA_LEN cfg) (accelLists st ! j) (sample_at cfg buffer j)
            else accelLists st ! j))
     \<and> accelMeasureList st' = accelMeasureList st @
           (if recording st \<and> i \<le> measurementSensor cfg \<and> measurementSensor cfg < SENSOR_NUM cfg
            then [sample_at cfg buffer (measurementSensor cfg)] else [])
     \<and> timestamp st' = timestamp st @
           (if recording st \<and> i \<le> measurementSensor cfg \<and> measurementSensor cfg < SENSOR_NUM cfg
            then [now] else [])
     \<and> (i < SENSOR_NUM cfg \<longrightarrow>
           rawAccels st' = rawAccels_at header buffer (SENSOR_NUM cfg - 1)
           \<and> accels st' = convertRawAccel cfg (rawAccels_at header buffer (SENSOR_NUM cfg - 1)))
     \<and> port_in st' = port_in st \<and> port_out st' = port_out st
     \<and> isSerialReady st' = isSerialReady st
     \<and> isAccelMeasure st' = isAccelMeasure st \<and> isRealtimeRec st' = isRealtimeRec st
     \<and> accelOutputWriter st' = accelOutputWriter st"

text \<open>
  A one-sensor build of the host with the repository's other settings, and a small
  configuration whose window holds a single sample.
\<close>

definition one_sensor_config :: config where
  "one_sensor_config = sketch_config\<lparr>SENSOR_NUM := 1, measurementSensor := 0\<rparr>"

definition tiny_config :: config where
  "tiny_config = \<lparr>FULL_SCALE = 16, SAMPLING_RATE = 1, SENSOR_NUM = 1, FSR_NUM = 0,
     VIBRATION_FREQ = 10, measurementSensor = 0\<rparr>"

text \<open>
  Two more one-sensor configurations: one whose window holds two samples, and one whose
  stimulus advances a quarter turn per sample, with a window of eight samples.
\<close>

definition small_window_config :: config where
  "small_window_config = \<lparr>FULL_SCALE = 16, SAMPLING_RATE = 2, SENSOR_NUM = 1, FSR_NUM = 0,
     VIBRATION_FREQ = 10, measurementSensor = 0\<rparr>"

definition quarter_turn_config :: config where
  "quarter_turn_config = \<lparr>FULL_SCALE = 16, SAMPLING_RATE = 4, SENSOR_NUM = 1, FSR_NUM = 0,
     VIBRATION_FREQ = 5, measurementSensor = 0\<rparr>"

definition host_idle :: host where
  "host_idle = \<lparr>isSerialReady = True, port_in = [], port_out = [], rawAccels = (0, 0, 0),
     accels = (0, 0, 0), accelLists = [[]], isAccelMeasure = False, isRealtimeRec = False,
     accelMeasureList = [], timestamp = [], accelOutputWriter = None\<rparr>"

text \<open>
  The frame that \<open>fw_streaming\<close> sends, and the same frame with one payload byte
  changed on the line (\<open>0x34\<close> received as \<open>0x35\<close>).
\<close>

definition good_frame :: "uint8_t list" where
  "good_frame = [0x7F, 0xFF, 0xFF, 0x12, 0x34, 0x80, 0x00, 0x7F, 0xFF, 0x04, 0xC1, 0xFE]"

definition bad_frame :: "uint8_t list" where
  "bad_frame = [0x7F, 0xFF, 0xFF, 0x12, 0x35, 0x80, 0x00, 0x7F, 0xFF, 0x04, 0xC1, 0xFE]"

text \<open>
  The amplitude settings that the sweep goes through from \<open>sineAmp\<close> on, the row it
  prints for a setting when the history it reads holds a full window, and the row that
  stopping a recording prints for one recorded sample.
\<close>

function sweep_settings :: "real \<Rightarrow> real list" where
  "sweep_settings sineAmp =
     (if sineAmp \<le> 1.0 then sineAmp # sweep_settings (sineAmp + 0.01) else [])"
  by pat_completeness auto
termination
  apply (relation "measure (\<lambda>sineAmp. nat (\<lfloor>(1 - sineAmp) * 100\<rfloor> + 1))")
   apply simp
  subgoal for sineAmp
    using sweep_measure [of sineAmp] by simp
  done

declare sweep_settings.simps [simp del]

definition sweep_row ::
  "config \<Rightarrow> real list \<Rightarrow> real list \<Rightarrow> (real \<Rightarrow> Accel list \<times> real) \<Rightarrow> real \<Rightarrow> line" where
  "sweep_row cfg SS CC obs sineAmp =
     CellLine [FloatCell (VIBRATION_FREQ cfg), FloatCell sineAmp,
       FloatCell (detectAmp cfg
          (\<Sum>k<DATA_LEN cfg. SS ! k * az (fst (obs sineAmp) ! k))
          (\<Sum>k<DATA_LEN cfg. CC ! k * az (fst (obs sineAmp) ! k))),
       FloatCell (snd (obs sineAmp))]"

definition measurement_row :: "int \<Rightarrow> Accel \<Rightarrow> line" where
  "measurement_row t a = CellLine [IntCell t, Fixed3Cell (az a)]"

text \<open>A host that has recorded one sample and whose output writer is open.\<close>

definition host_recorded :: host where
  "host_recorded = host_idle\<lparr>isRealtimeRec := True,
     accelMeasureList := [\<lparr>ax = 1, ay = 2, az = 3\<rparr>], timestamp := [5],
     accelOutputWriter := Some createWriter\<rparr>"

text \<open>
  Three blocks of the length that a one-sensor sketch reads, and a window of eight samples
  whose \<open>az\<close> values rise from 1 to 8.
\<close>

definition three_blocks :: "uint8_t list list" where
  "three_blocks =
     [[0x7F, 0x00, 0x01, 0x00, 0x02, 0x00, 0x03, 0xFE],
      [0x7F, 0x00, 0x04, 0x00, 0x05, 0x00, 0x06, 0xFE],
      [0x7F, 0xFF, 0xFF, 0x80, 0x00, 0x7F, 0xFF, 0xFE]]"

definition ramp_window :: "Accel list" where
  "ramp_window =
     [\<lparr>ax = 100, ay = - 100, az = 1\<rparr>, \<lparr>ax = 100, ay = - 100, az = 2\<rparr>,
      \<lparr>ax = 100, ay = - 100, az = 3\<rparr>, \<lparr>ax = 100, ay = - 100, az = 4\<rparr>,
      \<lparr>ax = 100, ay = - 100, az = 5\<rparr>, \<lparr>ax = 100, ay = - 100, az = 6\<rparr>,
      \<lparr>ax = 100, ay = - 100, az = 7\<rparr>, \<lparr>ax = 100, ay = - 100, az = 8\<rparr>]"

section \<open>The window length\<close>

lemma round_half_even_near:
  assumes "of_int m - 1 / 2 < q" and "q < of_int m + 1 / 2"
  shows "round_half_even q = m"
proof (cases "of_int m \<le> q")
  case True
  then have "\<lfloor>q\<rfloor> = m"
    using assms(2) by (intro floor_unique) simp_all
  then show ?thesis
    using assms(2) by (simp add: round_half_even_def Let_def)
next
  case False
  then have f: "\<lfloor>q\<rfloor> = m - 1"
    using assms(1) by (intro floor_unique) simp_all
  have "1 / 2 < q - of_int (m - 1)"
    using assms(1) by simp
  then show ?thesis
    using f by (simp add: round_half_even_def Let_def)
qed

lemma round_half_even_tie:
  assumes "q = of_int m + 1 / 2" and "even m"
  shows "round_half_even q = m"
proof -
  have "\<lfloor>q\<rfloor> = m"
    unfolding assms(1) by (intro floor_unique) simp_all
  then show ?thesis
    using assms by (simp add: round_half_even_def Let_def)
qed

lemma two_powr_neg: "(2::real) powr (- real n) = 1 / 2 ^ n"
  by (simp add: powr_minus powr_realpow inverse_eq_divide)

lemma two_powr_diff: "(2::real) powr of_int (int k - int n) = 2 ^ k / 2 ^ n"
proof -
  have "(2::real) powr (real k - real n) = 2 powr real k / 2 powr real n"
    by (rule powr_diff)
  then show ?thesis
    by (simp add: powr_realpow)
qed

lemma float32_scaled:
  assumes "2 ^ 23 \<le> x * 2 ^ n" and "x * 2 ^ n < 2 ^ 24"
    and "round_half_even (x * 2 ^ n) = m"
  shows "float32 x = of_int m / 2 ^ n"
proof -
  have p: "(0::real) < 2 ^ n"
    by simp
  have "0 < x * 2 ^ n"
    using assms(1) by (rule less_le_trans [rotated]) simp
  then have x: "0 < x"
    using p by (simp add: zero_less_mult_iff)
  have lo: "2 powr of_int (int 23 - int n) \<le> \<bar>x\<bar>"
  proof -
    have "2 ^ 23 / 2 ^ n \<le> x"
      using assms(1) p by (simp add: divide_le_eq)
    then show ?thesis
      using x by (simp only: two_powr_diff abs_of_pos)
  qed
  have hi: "\<bar>x\<bar> < 2 powr of_int (int 23 - int n + 1)"
  proof -
    have "x < 2 ^ 24 / 2 ^ n"
      using assms(2) p by (simp add: less_divide_eq)
    moreover have "int 23 - int n + 1 = int 24 - int n"
      by simp
    ultimately show ?thesis
      using x by (simp only: two_powr_diff abs_of_pos)
  qed
  have "\<lfloor>log 2 \<bar>x\<bar>\<rfloor> = int 23 - int n"
    using floor_log_eq_powr_iff [of "\<bar>x\<bar>" 2 "int 23 - int n"] x lo hi by simp
  then have "\<lfloor>log 2 x\<rfloor> = 23 - int n"
    using x by simp
  then have e: "real_of_int \<lfloor>log 2 x\<rfloor> - 23 = - real n"
    by simp
  show ?thesis
    using x assms(3) by (simp add: float32_def Let_def e two_powr_neg)
qed

lemma DATA_LEN_sketch: "DATA_LEN sketch_config = 237"
proof -
  have v: "VIBRATION_FREQ sketch_config = 70" "SAMPLING_RATE sketch_config = 1660"
    by (simp_all add: sketch_config_def)
  have a: "float32 (1 / 70) = 15339169 / 2 ^ 30"
    by (rule float32_scaled [where m = 15339169, simplified])
       (simp_all add: round_half_even_near)
  have b: "float32 (15339169 / 2 ^ 30 * 10) = 9586981 / 2 ^ 26"
    by (rule float32_scaled [where m = 9586981, simplified])
       (simp_all add: round_half_even_near)
  have c: "float32 (1660 * (9586981 / 2 ^ 26)) = 15541395 / 2 ^ 16"
    by (rule float32_scaled [where m = 15541395, simplified])
       (simp_all add: round_half_even_near)
  have "DURATION sketch_config = 9586981 / 2 ^ 26"
    unfolding DURATION_def v by (simp only: a b)
  then have "DATA_LEN sketch_config = nat \<lfloor>(15541395 / 2 ^ 16 :: real)\<rfloor>"
    unfolding DATA_LEN_def v by (simp only: c)
  then show ?thesis
    by simp
qed

lemma DATA_LEN_one_sensor: "DATA_LEN one_sensor_config = 237"
proof -
  have v: "VIBRATION_FREQ one_sensor_config = 70" "SAMPLING_RATE one_sensor_config = 1660"
    by (simp_all add: one_sensor_config_def sketch_config_def)
  have a: "float32 (1 / 70) = 15339169 / 2 ^ 30"
    by (rule float32_scaled [where m = 15339169, simplified])
       (simp_all add: round_half_even_near)
  have b: "float32 (15339169 / 2 ^ 30 * 10) = 9586981 / 2 ^ 26"
    by (rule float32_scaled [where m = 9586981, simplified])
       (simp_all add: round_half_even_near)
  have c: "float32 (1660 * (9586981 / 2 ^ 26)) = 15541395 / 2 ^ 16"
    by (rule float32_scaled [where m = 15541395, simplified])
       (simp_all add: round_half_even_near)
  have "DURATION one_sensor_config = 9586981 / 2 ^ 26"
    unfolding DURATION_def v by (simp only: a b)
  then have "DATA_LEN one_sensor_config = nat \<lfloor>(15541395 / 2 ^ 16 :: real)\<rfloor>"
    unfolding DATA_LEN_def v by (simp only: c)
  then show ?thesis
    by simp
qed

text \<open>
  At a stimulus of 50 Hz the rounding shows: the exact product is 332, the float product
  lies just below it, and the window has 331 samples.
\<close>

lemma DATA_LEN_50Hz: "DATA_LEN (sketch_config\<lparr>VIBRATION_FREQ := 50\<rparr>) = 331"
proof -
  have v: "VIBRATION_FREQ (sketch_config\<lparr>VIBRATION_FREQ := 50\<rparr>) = 50" "SAMPLING_RATE (sketch_config\<lparr>VIBRATION_FREQ := 50\<rparr>) = 1660"
    by (simp_all add: sketch_config_def)
  have a: "float32 (1 / 50) = 10737418 / 2 ^ 29"
    by (rule float32_scaled [where m = 10737418, simplified])
       (simp_all add: round_half_even_near)
  have b: "float32 (10737418 / 2 ^ 29 * 10) = 13421772 / 2 ^ 26"
    by (rule float32_scaled [where m = 13421772, simplified])
       (simp_all add: round_half_even_tie)
  have c: "float32 (1660 * (13421772 / 2 ^ 26)) = 10878975 / 2 ^ 15"
    by (rule float32_scaled [where m = 10878975, simplified])
       (simp_all add: round_half_even_near)
  have "DURATION (sketch_config\<lparr>VIBRATION_FREQ := 50\<rparr>) = 13421772 / 2 ^ 26"
    unfolding DURATION_def v by (simp only: a b)
  then have "DATA_LEN (sketch_config\<lparr>VIBRATION_FREQ := 50\<rparr>) = nat \<lfloor>(10878975 / 2 ^ 15 :: real)\<rfloor>"
    unfolding DATA_LEN_def v by (simp only: c)
  then show ?thesis
    by simp
qed

lemma DATA_LEN_tiny: "DATA_LEN tiny_config = 1"
proof -
  have v: "VIBRATION_FREQ tiny_config = 10" "SAMPLING_RATE tiny_config = 1"
    by (simp_all add: tiny_config_def)
  have a: "float32 (1 / 10) = 13421773 / 2 ^ 27"
    by (rule float32_scaled [where m = 13421773, simplified])
       (simp_all add: round_half_even_near)
  have b: "float32 (13421773 / 2 ^ 27 * 10) = 8388608 / 2 ^ 23"
    by (rule float32_scaled [where m = 8388608, simplified])
       (simp_all add: round_half_even_near)
  have c: "float32 (1 * (8388608 / 2 ^ 23)) = 8388608 / 2 ^ 23"
    by (rule float32_scaled [where m = 8388608, simplified])
       (simp_all add: round_half_even_near)
  have "DURATION tiny_config = 8388608 / 2 ^ 23"
    unfolding DURATION_def v by (simp only: a b)
  then have "DATA_LEN tiny_config = nat \<lfloor>(8388608 / 2 ^ 23 :: real)\<rfloor>"
    unfolding DATA_LEN_def v by (simp only: c)
  then show ?thesis
    by simp
qed

lemma DATA_LEN_small_window: "DATA_LEN small_window_config = 2"
proof -
  have v: "VIBRATION_FREQ small_window_config = 10" "SAMPLING_RATE small_window_config = 2"
    by (simp_all add: small_window_config_def)
  have a: "float32 (1 / 10) = 13421773 / 2 ^ 27"
    by (rule float32_scaled [where m = 13421773, simplified])
       (simp_all add: round_half_even_near)
  have b: "float32 (13421773 / 2 ^ 27 * 10) = 8388608 / 2 ^ 23"
    by (rule float32_scaled [where m = 8388608, simplified])
       (simp_all add: round_half_even_near)
  have c: "float32 (2 * (8388608 / 2 ^ 23)) = 8388608 / 2 ^ 22"
    by (rule float32_scaled [where m = 8388608, simplified])
       (simp_all add: round_half_even_near)
  have "DURATION small_window_config = 8388608 / 2 ^ 23"
    unfolding DURATION_def v by (simp only: a b)
  then have "DATA_LEN small_window_config = nat \<lfloor>(8388608 / 2 ^ 22 :: real)\<rfloor>"
    unfolding DATA_LEN_def v by (simp only: c)
  then show ?thesis
    by simp
qed

lemma DATA_LEN_quarter_turn: "DATA_LEN quarter_turn_config = 8"
proof -
  have v: "VIBRATION_FREQ quarter_turn_config = 5" "SAMPLING_RATE quarter_turn_config = 4"
    by (simp_all add: quarter_turn_config_def)
  have a: "float32 (1 / 5) = 13421773 / 2 ^ 26"
    by (rule float32_scaled [where m = 13421773, simplified])
       (simp_all add: round_half_even_near)
  have b: "float32 (13421773 / 2 ^ 26 * 10) = 8388608 / 2 ^ 22"
    by (rule float32_scaled [where m = 8388608, simplified])
       (simp_all add: round_half_even_near)
  have c: "float32 (4 * (8388608 / 2 ^ 22)) = 8388608 / 2 ^ 20"
    by (rule float32_scaled [where m = 8388608, simplified])
       (simp_all add: round_half_even_near)
  have "DURATION quarter_turn_config = 8388608 / 2 ^ 22"
    unfolding DURATION_def v by (simp only: a b)
  then have "DATA_LEN quarter_turn_config = nat \<lfloor>(8388608 / 2 ^ 20 :: real)\<rfloor>"
    unfolding DATA_LEN_def v by (simp only: c)
  then show ?thesis
    by simp
qed

section \<open>Sensor initialisation\<close>

lemma readByte_WHO_AM_I: "readByte dev LSM6DS3_REG_WHO_AM_I = chip dev 0x0F"
  by (simp add: readByte_def LSM6DS3_REG_WHO_AM_I_def)

lemma begin_sensor_mismatch:
  "readByte dev LSM6DS3_REG_WHO_AM_I \<noteq> 0x6A \<Longrightarrow>
   begin_sensor aOdr aScale aBw gOdr gScale dev =
     (False, dev,
      ascii ''WHO_AM_I mismatch: '' @ println_HEX (readByte dev LSM6DS3_REG_WHO_AM_I))"
  by (simp add: begin_sensor_def Let_def)

lemma begin_sensor_match:
  "readByte dev LSM6DS3_REG_WHO_AM_I = 0x6A \<Longrightarrow>
   begin_sensor aOdr aScale aBw gOdr gScale dev =
     (True,
      dev\<lparr>accelScale := aScale, gyroScale := gScale,
          chip := (chip dev)
            (0x10 := AccelODR_code aOdr OR AccelScale_code aScale OR AccelBW_code aBw,
             0x11 := GyroODR_code gOdr OR GyroScale_code gScale,
             0x12 := 0x44),
          spi_writes := spi_writes dev @
            [(0x10, AccelODR_code aOdr OR AccelScale_code aScale OR AccelBW_code aBw),
             (0x11, GyroODR_code gOdr OR GyroScale_code gScale),
             (0x12, 0x44)]\<rparr>,
      [])"
  by (simp add: begin_sensor_def Let_def writeByte_def LSM6DS3_REG_CTRL1_XL_def
      LSM6DS3_REG_CTRL2_G_def LSM6DS3_REG_CTRL3_C_def)

text \<open>
  Claim C10. \<open>LSM6DS3::begin\<close> returns true exactly when the \<open>WHO_AM_I\<close> register reads
  \<open>0x6A\<close>. When it returns false nothing was written to the chip (no write transaction
  at all, so none to \<open>CTRL1_XL\<close>, \<open>CTRL2_G\<close> or \<open>CTRL3_C\<close>, and every register
  holds what it held), and the stored accelerometer and gyro scales are the previous ones.
\<close>

theorem begin_sensor_atomic:
  "(fst (begin_sensor aOdr aScale aBw gOdr gScale dev)
      \<longleftrightarrow> readByte dev LSM6DS3_REG_WHO_AM_I = 0x6A)
   \<and> (\<not> fst (begin_sensor aOdr aScale aBw gOdr gScale dev) \<longrightarrow>
        chip (fst (snd (begin_sensor aOdr aScale aBw gOdr gScale dev))) = chip dev
        \<and> spi_writes (fst (snd (begin_sensor aOdr aScale aBw gOdr gScale dev))) = spi_writes dev
        \<and> accelScale (fst (snd (begin_sensor aOdr aScale aBw gOdr gScale dev))) = accelScale dev
        \<and> gyroScale (fst (snd (begin_sensor aOdr aScale aBw gOdr gScale dev))) = gyroScale dev)"
  by (cases "readByte dev LSM6DS3_REG_WHO_AM_I = 0x6A")
     (simp_all add: begin_sensor_match begin_sensor_mismatch)

theorem begin_sensor_atomic_witness:
  "\<not> fst (begin_sensor ACC_ODR_1660Hz ACC_FS_16G ACC_BW_400Hz GYR_ODR_416Hz GYR_FS_2000DPS
          (LSM6DS3_new 0 chip_absent))
   \<and> chip (fst (snd (begin_sensor ACC_ODR_1660Hz ACC_FS_16G ACC_BW_400Hz GYR_ODR_416Hz
          GYR_FS_2000DPS (LSM6DS3_new 0 chip_absent)))) = chip_absent
   \<and> spi_writes (fst (snd (begin_sensor ACC_ODR_1660Hz ACC_FS_16G ACC_BW_400Hz GYR_ODR_416Hz
          GYR_FS_2000DPS (LSM6DS3_new 0 chip_absent)))) = []
   \<and> accelScale (fst (snd (begin_sensor ACC_ODR_1660Hz ACC_FS_16G ACC_BW_400Hz GYR_ODR_416Hz
          GYR_FS_2000DPS (LSM6DS3_new 0 chip_absent)))) = ACC_FS_2G
   \<and> fst (begin_sensor ACC_ODR_1660Hz ACC_FS_16G ACC_BW_400Hz GYR_ODR_416Hz GYR_FS_2000DPS
          (LSM6DS3_new 0 chip0))"
proof -
  have m: "readByte (LSM6DS3_new 0 chip_absent) LSM6DS3_REG_WHO_AM_I \<noteq> 0x6A"
    by (simp add: readByte_WHO_AM_I LSM6DS3_new_def chip_absent_def)
  have k: "readByte (LSM6DS3_new 0 chip0) LSM6DS3_REG_WHO_AM_I = 0x6A"
    by (simp add: readByte_WHO_AM_I LSM6DS3_new_def chip0_def)
  show ?thesis
    using m k
      begin_sensor_atomic [of ACC_ODR_1660Hz ACC_FS_16G ACC_BW_400Hz GYR_ODR_416Hz
        GYR_FS_2000DPS "LSM6DS3_new 0 chip_absent"]
      begin_sensor_atomic [of ACC_ODR_1660Hz ACC_FS_16G ACC_BW_400Hz GYR_ODR_416Hz
        GYR_FS_2000DPS "LSM6DS3_new 0 chip0"]
    by (simp add: LSM6DS3_new_def)
qed

section \<open>The command loop\<close>

lemma initializeSensors_loop_eq:
  "initializeSensors_loop devs =
     (map (\<lambda>d. fst (snd (begin_call d))) devs,
      concat (map (\<lambda>d. snd (snd (begin_call d))) devs))"
  by (induction devs) (simp_all split: prod.splits)

lemma char_byte_codes:
  "char_byte CHR ''s'' = 0x73" "char_byte CHR ''e'' = 0x65" "char_byte CHR ''r'' = 0x72"
  by (simp_all add: char_byte_def)

text \<open>
  Claim C8, as the code has it. Reading a command byte never touches the sequence counter
  or the frame buffer. The bytes \<open>e\<close> and \<open>r\<close> change nothing but the \<open>active\<close>
  flag (and consume the byte); any byte other than \<open>s\<close>, \<open>e\<close>, \<open>r\<close> is consumed
  with no effect. The byte \<open>s\<close> sets the flag and also runs \<open>initializeSensors\<close>:
  \<open>begin\<close> is called on every sensor in index order, which rewrites the configuration
  registers and scale fields of each sensor that answers \<open>0x6A\<close> and prints a diagnostic
  line on the serial port for each one that does not.
\<close>

theorem loop_command:
  assumes "serial_in fw = c # rest"
  shows "g_seq (loop fw) = g_seq fw \<and> send_data (loop fw) = send_data fw
     \<and> serial_in (loop fw) = rest
     \<and> (c = char_byte CHR ''e'' \<longrightarrow> loop fw = fw\<lparr>serial_in := rest, active := False\<rparr>)
     \<and> (c = char_byte CHR ''r'' \<longrightarrow> loop fw = fw\<lparr>serial_in := rest, active := True\<rparr>)
     \<and> (c = char_byte CHR ''s'' \<longrightarrow>
          loop fw = fw\<lparr>serial_in := rest, active := True,
            imuSensors := map (\<lambda>d. fst (snd (begin_call d))) (imuSensors fw),
            serial_out := serial_out fw
              @ concat (map (\<lambda>d. snd (snd (begin_call d))) (imuSensors fw))\<rparr>)
     \<and> (c \<noteq> char_byte CHR ''s'' \<and> c \<noteq> char_byte CHR ''e'' \<and> c \<noteq> char_byte CHR ''r'' \<longrightarrow>
          loop fw = fw\<lparr>serial_in := rest\<rparr>)"
  using assms
  by (simp add: loop_def Let_def initializeSensors_def initializeSensors_loop_eq char_byte_codes)

theorem loop_command_witness:
  "active (loop fw_start_pending) \<and> serial_in (loop fw_start_pending) = []
   \<and> g_seq (loop fw_start_pending) = 0
   \<and> loop (fw_streaming\<lparr>serial_in := [char_byte CHR ''e'', 0]\<rparr>)
       = fw_streaming\<lparr>serial_in := [0], active := False\<rparr>
   \<and> loop (fw_start_pending\<lparr>serial_in := [char_byte CHR ''r'']\<rparr>)
       = fw_start_pending\<lparr>serial_in := [], active := True\<rparr>"
  using loop_command [of fw_start_pending "char_byte CHR ''s''" "[]"]
    loop_command [of "fw_streaming\<lparr>serial_in := [char_byte CHR ''e'', 0]\<rparr>"
      "char_byte CHR ''e''" "[0]"]
    loop_command [of "fw_start_pending\<lparr>serial_in := [char_byte CHR ''r'']\<rparr>"
      "char_byte CHR ''r''" "[]"]
  by (simp add: fw_start_pending_def fw_streaming_def char_byte_codes)

text \<open>
  The claim as stated, that \<open>s\<close> changes only the flag, fails on a sensor whose
  registers are not yet configured: after \<open>s\<close> its \<open>CTRL1_XL\<close> holds \<open>0x84\<close>, three
  registers have been written and the stored scale has changed.
\<close>

theorem loop_start_counterexample:
  "loop fw_start_pending \<noteq> fw_start_pending\<lparr>serial_in := [], active := True\<rparr>
   \<and> chip (hd (imuSensors fw_start_pending)) 0x10 = 0
   \<and> chip (hd (imuSensors (loop fw_start_pending))) 0x10 = 0x84
   \<and> spi_writes (hd (imuSensors (loop fw_start_pending))) = [(0x10, 0x84), (0x11, 0x6C), (0x12, 0x44)]
   \<and> accelScale (hd (imuSensors fw_start_pending)) = ACC_FS_2G
   \<and> accelScale (hd (imuSensors (loop fw_start_pending))) = ACC_FS_16G"
proof -
  have k: "readByte (LSM6DS3_new 0 chip0) LSM6DS3_REG_WHO_AM_I = 0x6A"
    by (simp add: readByte_WHO_AM_I LSM6DS3_new_def chip0_def)
  have l: "loop fw_start_pending =
      fw_start_pending\<lparr>serial_in := [], active := True,
        imuSensors := [fst (snd (begin_call (LSM6DS3_new 0 chip0)))],
        serial_out := snd (snd (begin_call (LSM6DS3_new 0 chip0)))\<rparr>"
    by (simp add: loop_def Let_def initializeSensors_def initializeSensors_loop_eq
        fw_start_pending_def)
  show ?thesis
    unfolding l begin_call_def begin_sensor_match [OF k]
    by (simp add: fw_start_pending_def LSM6DS3_new_def chip0_def)
qed

section \<open>The frame encoder\<close>

lemma FF_mask: "(0xFF :: c_int) = mask 8"
  by (simp add: mask_eq_exp_minus_1)

lemma hi_byte_int16_eq: "hi_byte_int16 x = ucast (drop_bit 8 x)"
  unfolding hi_byte_int16_def FF_mask
  by (rule bit_word_eqI) (auto simp: bit_simps)

lemma lo_byte_int16_eq: "lo_byte_int16 x = ucast x"
  unfolding lo_byte_int16_def FF_mask
  by (rule bit_word_eqI) (auto simp: bit_simps)

lemma hi_byte_uint16_eq: "hi_byte_uint16 x = ucast (drop_bit 8 x)"
  unfolding hi_byte_uint16_def FF_mask
  by (rule bit_word_eqI) (auto simp: bit_simps)

lemma lo_byte_uint16_eq: "lo_byte_uint16 x = ucast x"
  unfolding lo_byte_uint16_def FF_mask
  by (rule bit_word_eqI) (auto simp: bit_simps)

lemma calcChecksum_loop_eq:
  "calcChecksum_loop buf len i acc = acc + of_nat (sum_list (map (\<lambda>k. unat (buf k)) [i..<len]))"
proof (induction buf len i acc rule: calcChecksum_loop.induct)
  case (1 buf len i acc)
  show ?case
  proof (cases "i < len")
    case True
    then have "[i..<len] = i # [i + 1..<len]" by (simp add: upt_conv_Cons)
    with True 1 show ?thesis
      by (subst calcChecksum_loop.simps) (simp add: algebra_simps)
  next
    case False
    then show ?thesis by (subst calcChecksum_loop.simps) simp
  qed
qed

lemma calcChecksum_eq:
  "calcChecksum buf len = of_nat (sum_list (map unat (map buf [0..<len])))"
  by (simp add: calcChecksum_def calcChecksum_loop_eq comp_def)

lemma upt6: "[b..<b + 6] = [b, b + 1, b + 2, b + 3, b + 4, b + 5]"
proof -
  have "[0..<6] = [0, 1, 2, 3, 4, 5::nat]"
    by code_simp
  moreover have "map (\<lambda>k. k + b) [0..<6] = [b..<6 + b]"
    by (rule map_add_upt)
  ultimately show ?thesis
    by (simp add: add.commute)
qed

lemma map_upd6:
  "map (buf(b + 0 := a0, b + 1 := a1, b + 2 := a2, b + 3 := a3, b + 4 := a4, b + 5 := a5))
      [0..<b + 6] = map buf [0..<b] @ [a0, a1, a2, a3, a4, a5]"
proof -
  have "[0..<b + 6] = [0..<b] @ [b..<b + 6]"
    using upt_add_eq_append [of 0 b 6] by simp
  then show ?thesis
    by (simp add: upt6)
qed

lemma map_upd3:
  "map (buf(b + 0 := a0, b + 1 := a1, b + 2 := a2)) [0..<b + 3] = map buf [0..<b] @ [a0, a1, a2]"
proof -
  have "[0..<b + 3] = [0..<b] @ [b..<b + 3]"
    using upt_add_eq_append [of 0 b 3] by simp
  moreover have "[b..<b + 3] = [b, b + 1, b + 2]"
  proof -
    have "[0..<3] = [0, 1, 2::nat]"
      by code_simp
    moreover have "map (\<lambda>k. k + b) [0..<3] = [b..<3 + b]"
      by (rule map_add_upt)
    ultimately show ?thesis
      by (simp add: add.commute)
  qed
  ultimately show ?thesis
    by simp
qed

lemma sendData_loop_bytes:
  "i \<le> length sensors \<Longrightarrow>
   map (sendData_loop sensors i buf) [0..<ACC_HEADER + 6 * length sensors] =
     map buf [0..<ACC_HEADER + 6 * i] @ concat (map (\<lambda>d. triple_bytes (readAccelRaw d)) (drop i sensors))"
proof (induction sensors i buf rule: sendData_loop.induct)
  case (1 sensors i buf)
  show ?case
  proof (cases "i < length sensors")
    case False
    with 1(2) have "i = length sensors" by simp
    then show ?thesis by (subst sendData_loop.simps) simp
  next
    case True
    obtain x y z where r: "readAccelRaw (sensors ! i) = (x, y, z)"
      by (cases "readAccelRaw (sensors ! i)") auto
    define base where "base = ACC_HEADER + i * 6"
    define buf' where "buf' = buf(base + 0 := hi_byte_int16 x, base + 1 := lo_byte_int16 x,
        base + 2 := hi_byte_int16 y, base + 3 := lo_byte_int16 y,
        base + 4 := hi_byte_int16 z, base + 5 := lo_byte_int16 z)"
    have step: "sendData_loop sensors i buf = sendData_loop sensors (i + 1) buf'"
      using True r by (subst sendData_loop.simps) (simp add: base_def buf'_def Let_def)
    have ih: "map (sendData_loop sensors (i + 1) buf') [0..<ACC_HEADER + 6 * length sensors] =
        map buf' [0..<ACC_HEADER + 6 * (i + 1)]
        @ concat (map (\<lambda>d. triple_bytes (readAccelRaw d)) (drop (i + 1) sensors))"
      using 1(1) [OF True, of x "(y, z)" y z base] r True
      by (simp only: buf'_def base_def)
    have six: "map buf' [0..<ACC_HEADER + 6 * (i + 1)] =
        map buf [0..<ACC_HEADER + 6 * i] @ triple_bytes (readAccelRaw (sensors ! i))"
    proof -
      have "ACC_HEADER + 6 * (i + 1) = base + 6" by (simp add: base_def)
      moreover have "ACC_HEADER + 6 * i = base" by (simp add: base_def)
      moreover have "triple_bytes (x, y, z) = [hi_byte_int16 x, lo_byte_int16 x,
          hi_byte_int16 y, lo_byte_int16 y, hi_byte_int16 z, lo_byte_int16 z]"
        by (simp add: triple_bytes_def big_endian16_def hi_byte_int16_eq lo_byte_int16_eq)
      ultimately show ?thesis
        unfolding buf'_def by (simp only: map_upd6 r)
    qed
    have dr: "drop i sensors = sensors ! i # drop (i + 1) sensors"
      using True by (simp add: Cons_nth_drop_Suc)
    have "concat (map (\<lambda>d. triple_bytes (readAccelRaw d)) (drop i sensors)) =
        triple_bytes (readAccelRaw (sensors ! i))
        @ concat (map (\<lambda>d. triple_bytes (readAccelRaw d)) (drop (i + 1) sensors))"
      by (subst dr) simp
    then show ?thesis
      by (simp only: step ih six append_assoc)
  qed
qed


lemma frame_head:
  "map (buf(0 := h, 1 := a, 2 := b)) [0..<ACC_HEADER] = [h, a, b]"
proof -
  have "[0..<3] = [0, 1, 2::nat]"
    by code_simp
  then show ?thesis
    by (simp add: ACC_HEADER_def)
qed

lemma additive_checksum_eq: "additive_checksum body = of_nat (sum_list (map unat body))"
proof -
  have "unat (additive_checksum body) = unat (of_nat (sum_list (map unat body)) :: uint16_t)"
    by (simp add: additive_checksum_def unat_of_nat)
  then show ?thesis
    by (rule word_unat_eq_iff [THEN iffD2])
qed

lemma big_endian16_value:
  assumes "big_endian16 x = [h, l]"
  shows "unat x = 256 * unat h + unat l"
proof -
  from assms have h: "h = ucast (drop_bit 8 x)" and l: "l = ucast x"
    by (simp_all add: big_endian16_def)
  have bound: "unat x < 65536"
    using unsigned_less [of x, where ?'a = nat] by simp
  have "unat (drop_bit 8 x) = unat x div 256"
    by (simp add: unat_drop_bit_eq drop_bit_eq_div unat_div_distrib)
  moreover have "unat x div 256 < 256"
    using bound by simp
  ultimately have "unat h = unat x div 256"
    unfolding h by (simp only: unsigned_ucast_eq take_bit_eq_mod) simp
  moreover have "unat l = unat x mod 256"
    unfolding l by (simp add: unsigned_ucast_eq take_bit_eq_mod)
  ultimately show ?thesis
    by simp
qed

lemma sendData_serial_out:
  assumes "active fw"
  shows "serial_out (sendData fw) =
           serial_out fw @ wire_frame (g_seq fw) (map readAccelRaw (imuSensors fw))
         \<and> length (wire_frame (g_seq fw) (map readAccelRaw (imuSensors fw)))
             = 3 + 6 * IMU_NUM fw + 3
         \<and> g_seq (sendData fw) = g_seq fw + 1"
proof -
  define n where "n = length (imuSensors fw)"
  define buf1 where "buf1 = (send_data fw)(0 := HEADER, 1 := hi_byte_uint16 (g_seq fw),
      2 := lo_byte_uint16 (g_seq fw))"
  define buf2 where "buf2 = sendData_loop (imuSensors fw) 0 buf1"
  define pe where "pe = ACC_HEADER + 6 * n"
  define ck where "ck = calcChecksum buf2 pe"
  define buf3 where "buf3 = buf2(pe + 0 := hi_byte_uint16 ck, pe + 1 := lo_byte_uint16 ck,
      pe + 2 := FOOTER)"
  define body where "body = [0x7F] @ big_endian16 (g_seq fw)
      @ concat (map triple_bytes (map readAccelRaw (imuSensors fw)))"
  have dl: "fw_DATA_LEN fw = pe + 3"
    by (simp add: fw_DATA_LEN_def pe_def n_def IMU_NUM_def ACC_CHECKSUM_LEN_def ACC_FOOTER_def)
  have "sendData fw = fw\<lparr>g_seq := g_seq fw + 1, send_data := buf3,
      serial_out := serial_out fw @ map buf3 [0..<fw_DATA_LEN fw]\<rparr>"
    using assms
    by (simp only: sendData_def Let_def buf3_def ck_def pe_def buf2_def buf1_def n_def
        IMU_NUM_def if_False simp_thms)
  then have out: "serial_out (sendData fw) = serial_out fw @ map buf3 [0..<pe + 3]"
    by (simp only: dl) simp
  have b2: "map buf2 [0..<pe] = body"
    unfolding buf2_def pe_def n_def body_def buf1_def
    by (simp only: sendData_loop_bytes [of 0, simplified] frame_head drop_0)
       (simp add: HEADER_def big_endian16_def hi_byte_uint16_eq lo_byte_uint16_eq comp_def)
  have b3: "map buf3 [0..<pe + 3] = body @ big_endian16 ck @ [0xFE]"
    unfolding buf3_def by (simp only: map_upd3 b2)
      (simp add: big_endian16_def hi_byte_uint16_eq lo_byte_uint16_eq FOOTER_def)
  have ckv: "ck = additive_checksum body"
    unfolding ck_def by (simp only: calcChecksum_eq b2 additive_checksum_eq)
  have wf: "wire_frame (g_seq fw) (map readAccelRaw (imuSensors fw)) = body @ big_endian16 ck @ [0xFE]"
    by (simp only: wire_frame_def Let_def body_def [symmetric] ckv)
  have len: "length body = pe"
    using arg_cong [OF b2, of length] by simp
  have seq: "g_seq (sendData fw) = g_seq fw + 1"
    using assms by (simp add: sendData_def Let_def)
  have "serial_out (sendData fw) =
      serial_out fw @ wire_frame (g_seq fw) (map readAccelRaw (imuSensors fw))"
    by (simp only: out b3 wf)
  moreover have "length (wire_frame (g_seq fw) (map readAccelRaw (imuSensors fw)))
      = 3 + 6 * IMU_NUM fw + 3"
    by (simp add: wf len big_endian16_def pe_def n_def IMU_NUM_def ACC_HEADER_def)
  ultimately show ?thesis
    using seq by simp
qed

text \<open>While streaming is off the callback returns at once and writes nothing.\<close>

lemma sendData_inactive: "\<not> active fw \<Longrightarrow> sendData fw = fw"
  by (simp add: sendData_def)

lemma upt_0_6: "[0..<6] = [0, 1, 2, 3, 4, 5::nat]"
  by code_simp

lemma readAccelRaw_chip0: "readAccelRaw (LSM6DS3_new 0 chip0) = (0x1234, 0x8000, 0x7FFF)"
  by (simp add: readAccelRaw_def readBytes_def LSM6DS3_new_def chip0_def combine_le_def
      LSM6DS3_REG_OUTX_L_XL_def Let_def upt_0_6)

lemma sendData_fw_streaming: "serial_out (sendData fw_streaming) = good_frame"
proof -
  have "active fw_streaming"
    by (simp add: fw_streaming_def)
  then show ?thesis
    using sendData_serial_out [of fw_streaming]
    by (simp add: fw_streaming_def readAccelRaw_chip0 wire_frame_def triple_bytes_def
        big_endian16_def additive_checksum_def Let_def good_frame_def)
qed

text \<open>
  Claim C1. Every call of \<open>sendData\<close> while streaming is active, on a build with
  \<open>N = IMU_NUM\<close> sensors, writes exactly one frame of \<open>3 + 6 N + 3\<close> bytes to the
  serial port: the header \<open>0x7F\<close>, the 16-bit sequence counter big-endian, then for each
  sensor in index order the values \<open>ax\<close>, \<open>ay\<close>, \<open>az\<close> read from it, each as two
  bytes big-endian, then the 16-bit checksum big-endian, which is the sum of all bytes from
  the header to the end of the payload modulo 65536, and last the footer \<open>0xFE\<close>. The
  sequence counter advances by one, wrapping at 65536.
\<close>

theorem sendData_frame:
  assumes "active fw"
  shows "serial_out (sendData fw) =
           serial_out fw @ wire_frame (g_seq fw) (map readAccelRaw (imuSensors fw))
         \<and> length (wire_frame (g_seq fw) (map readAccelRaw (imuSensors fw)))
             = 3 + 6 * IMU_NUM fw + 3
         \<and> g_seq (sendData fw) = g_seq fw + 1"
  using assms by (rule sendData_serial_out)

theorem sendData_frame_witness:
  "serial_out (sendData fw_streaming) =
     [0x7F, 0xFF, 0xFF, 0x12, 0x34, 0x80, 0x00, 0x7F, 0xFF, 0x04, 0xC1, 0xFE]
   \<and> g_seq (sendData fw_streaming) = 0"
proof -
  have a: "active fw_streaming"
    by (simp add: fw_streaming_def)
  show ?thesis
    using sendData_frame [OF a]
    by (simp add: fw_streaming_def readAccelRaw_chip0 wire_frame_def triple_bytes_def
        big_endian16_def additive_checksum_def Let_def)
qed

section \<open>Receiving on the host\<close>

lemma serialEvent_loop_effect:
  "SENSOR_NUM cfg \<le> length (accelLists st) \<Longrightarrow>
   \<exists>st'. serialEvent_loop cfg now buffer i st = Inr st' \<and> block_effect cfg now buffer i st st'"
proof (induction cfg now buffer i st rule: serialEvent_loop.induct)
  case (1 cfg now buffer i st)
  show ?case
  proof (cases "i < SENSOR_NUM cfg")
    case False
    then have "serialEvent_loop cfg now buffer i st = Inr st"
      by (subst serialEvent_loop.simps) simp
    moreover have "block_effect cfg now buffer i st st"
      using False by (auto simp: block_effect_def)
    ultimately show ?thesis by blast
  next
    case True
    define raw where "raw = rawAccels_at header buffer i"
    define st1 where "st1 = st\<lparr>rawAccels := raw, accels := convertRawAccel cfg raw\<rparr>"
    define a where "a = (case raw of (r0, r1, r2) \<Rightarrow> Accel_of_raw cfg r0 r1 r2)"
    define st2 where "st2 = st1\<lparr>accelLists :=
        (accelLists st1)[i := add_evict (DATA_LEN cfg) (accelLists st1 ! i) a]\<rparr>"
    define st3 where "st3 = (if i = measurementSensor cfg \<and> (isAccelMeasure st2 \<or> isRealtimeRec st2)
        then st2\<lparr>accelMeasureList := accelMeasureList st2 @ [a], timestamp := timestamp st2 @ [now]\<rparr>
        else st2)"
    have a: "a = sample_at cfg buffer i"
      by (simp add: a_def raw_def sample_at_def)
    have il: "i < length (accelLists st1)"
      using True 1(2) by (simp add: st1_def)
    have step: "serialEvent_loop cfg now buffer i st = serialEvent_loop cfg now buffer (i + 1) st3"
      using True il
      by (subst serialEvent_loop.simps)
         (simp only: Let_def raw_def [symmetric] st1_def [symmetric] a_def [symmetric]
            st2_def [symmetric] st3_def [symmetric] if_True)
    have len3: "SENSOR_NUM cfg \<le> length (accelLists st3)"
      using 1(2) by (simp add: st3_def st2_def st1_def)
    obtain st' where r: "serialEvent_loop cfg now buffer (i + 1) st3 = Inr st'"
      and e: "block_effect cfg now buffer (i + 1) st3 st'"
      using 1(1) [OF True raw_def st1_def a_def il st2_def st3_def len3] by blast
    have f1: "accelLists st3 = (accelLists st)[i := add_evict (DATA_LEN cfg) (accelLists st ! i) a]"
      by (simp add: st3_def st2_def st1_def)
    have f2: "accelMeasureList st3 = accelMeasureList st @
        (if i = measurementSensor cfg \<and> recording st then [a] else [])"
      by (simp add: st3_def st2_def st1_def recording_def)
    have f3: "timestamp st3 = timestamp st @
        (if i = measurementSensor cfg \<and> recording st then [now] else [])"
      by (simp add: st3_def st2_def st1_def recording_def)
    have f4: "recording st3 = recording st" "port_in st3 = port_in st" "port_out st3 = port_out st"
      "isSerialReady st3 = isSerialReady st" "isAccelMeasure st3 = isAccelMeasure st"
      "isRealtimeRec st3 = isRealtimeRec st" "accelOutputWriter st3 = accelOutputWriter st"
      by (simp_all add: st3_def st2_def st1_def recording_def)
    have f5: "\<not> i + 1 < SENSOR_NUM cfg \<Longrightarrow> rawAccels st3 = rawAccels_at header buffer (SENSOR_NUM cfg - 1)
        \<and> accels st3 = convertRawAccel cfg (rawAccels_at header buffer (SENSOR_NUM cfg - 1))"
    proof -
      assume "\<not> i + 1 < SENSOR_NUM cfg"
      with True have "SENSOR_NUM cfg - 1 = i" by simp
      then show ?thesis by (simp add: st3_def st2_def st1_def raw_def)
    qed
    have g1: "length (accelLists st') = length (accelLists st)"
      using e by (simp add: block_effect_def f1)
    have g2: "accelLists st' ! j =
           (if i \<le> j \<and> j < SENSOR_NUM cfg
            then add_evict (DATA_LEN cfg) (accelLists st ! j) (sample_at cfg buffer j)
            else accelLists st ! j)" if "j < length (accelLists st)" for j
    proof -
      have "accelLists st' ! j =
           (if i + 1 \<le> j \<and> j < SENSOR_NUM cfg
            then add_evict (DATA_LEN cfg) (accelLists st3 ! j) (sample_at cfg buffer j)
            else accelLists st3 ! j)"
        using e that by (simp add: block_effect_def f1)
      then show ?thesis
        using that True by (cases "j = i") (auto simp: f1 a)
    qed
    have g3: "accelMeasureList st' = accelMeasureList st @
           (if recording st \<and> i \<le> measurementSensor cfg \<and> measurementSensor cfg < SENSOR_NUM cfg
            then [sample_at cfg buffer (measurementSensor cfg)] else [])"
    proof -
      have "accelMeasureList st' = accelMeasureList st3 @
           (if recording st \<and> i + 1 \<le> measurementSensor cfg \<and> measurementSensor cfg < SENSOR_NUM cfg
            then [sample_at cfg buffer (measurementSensor cfg)] else [])"
        using e by (simp add: block_effect_def f4)
      then show ?thesis
        using True by (cases "i = measurementSensor cfg") (auto simp: f2 a)
    qed
    have g4: "timestamp st' = timestamp st @
           (if recording st \<and> i \<le> measurementSensor cfg \<and> measurementSensor cfg < SENSOR_NUM cfg
            then [now] else [])"
    proof -
      have "timestamp st' = timestamp st3 @
           (if recording st \<and> i + 1 \<le> measurementSensor cfg \<and> measurementSensor cfg < SENSOR_NUM cfg
            then [now] else [])"
        using e by (simp add: block_effect_def f4)
      then show ?thesis
        using True by (cases "i = measurementSensor cfg") (auto simp: f3)
    qed
    have g5: "rawAccels st' = rawAccels_at header buffer (SENSOR_NUM cfg - 1)
           \<and> accels st' = convertRawAccel cfg (rawAccels_at header buffer (SENSOR_NUM cfg - 1))"
    proof (cases "i + 1 < SENSOR_NUM cfg")
      case True
      then show ?thesis using e by (simp add: block_effect_def)
    next
      case False
      have "serialEvent_loop cfg now buffer (i + 1) st3 = Inr st3"
        using False by (subst serialEvent_loop.simps) simp
      with r have "st' = st3" by simp
      then show ?thesis using f5 [OF False] by simp
    qed
    have g6: "port_in st' = port_in st \<and> port_out st' = port_out st
        \<and> isSerialReady st' = isSerialReady st
        \<and> isAccelMeasure st' = isAccelMeasure st \<and> isRealtimeRec st' = isRealtimeRec st
        \<and> accelOutputWriter st' = accelOutputWriter st"
      using e by (simp add: block_effect_def f4)
    have "block_effect cfg now buffer i st st'"
      unfolding block_effect_def using g1 g2 g3 g4 g5 g6 by blast
    with step r show ?thesis by simp
  qed
qed


lemma serialEvent_idle:
  "\<not> isSerialReady st \<or> length (port_in st) < frame_len cfg \<Longrightarrow> serialEvent cfg now st = Inr st"
  by (auto simp: serialEvent_def frame_len_def header_def)

lemma serialEvent_block:
  assumes "isSerialReady st" and "frame_len cfg \<le> length (port_in st)"
    and "SENSOR_NUM cfg \<le> length (accelLists st)"
  shows "\<exists>st'. serialEvent cfg now st = Inr st'
     \<and> block_effect cfg now (take (frame_len cfg) (port_in st)) 0
          (st\<lparr>port_in := drop (frame_len cfg) (port_in st)\<rparr>) st'"
proof -
  have pos: "0 < frame_len cfg"
    by (simp add: frame_len_def header_def)
  then have "frame_len cfg - 1 < length (port_in st)"
    using assms(2) by simp
  then have "serialEvent cfg now st =
      serialEvent_loop cfg now (take (frame_len cfg) (port_in st)) 0
        (st\<lparr>port_in := drop (frame_len cfg) (port_in st)\<rparr>)"
    using assms(1) by (simp only: serialEvent_def Let_def simp_thms if_True if_False)
  moreover have "SENSOR_NUM cfg \<le> length (accelLists (st\<lparr>port_in := drop (frame_len cfg) (port_in st)\<rparr>))"
    using assms(3) by simp
  ultimately show ?thesis
    using serialEvent_loop_effect by simp
qed

lemma length_add_evict: "length xs \<le> W \<Longrightarrow> length (add_evict W xs a) \<le> W"
  by (auto simp: add_evict_def Let_def)

lemma add_evict_drop:
  "add_evict W (drop (length ss - W) ss) a = drop (length (ss @ [a]) - W) (ss @ [a])"
proof (cases "length ss < W")
  case True
  then show ?thesis by (simp add: add_evict_def Let_def)
next
  case False
  then have "length (drop (length ss - W) ss @ [a]) > W" by simp
  then have "add_evict W (drop (length ss - W) ss) a = tl (drop (length ss - W) ss @ [a])"
    by (simp add: add_evict_def Let_def)
  also have "\<dots> = drop (Suc (length ss - W)) (ss @ [a])"
  proof (cases "W = 0")
    case True
    then show ?thesis by simp
  next
    case W: False
    with False have "drop (length ss - W) ss \<noteq> []" by simp
    then have "tl (drop (length ss - W) ss @ [a]) = tl (drop (length ss - W) ss) @ [a]"
      by simp
    also have "tl (drop (length ss - W) ss) = drop (Suc (length ss - W)) ss"
      by (simp add: drop_Suc tl_drop)
    finally show ?thesis
      using False W by simp
  qed
  also have "Suc (length ss - W) = length (ss @ [a]) - W"
    using False by simp
  finally show ?thesis .
qed

lemma foldl_add_evict: "foldl (add_evict W) [] ss = drop (length ss - W) ss"
proof (induction ss rule: rev_induct)
  case Nil
  then show ?case by simp
next
  case (snoc a ss)
  then show ?case by (simp only: foldl_append foldl.simps add_evict_drop)
qed

section \<open>Unpacking the payload\<close>

lemma rawAccel_of_bytes_word:
  "push_bit 8 (scast (ucast (drop_bit 8 x) :: uint8_t) :: 32 word)
     + ((scast (ucast x :: uint8_t) :: 32 word) AND 0xFF) = scast (x :: 16 word)"
proof -
  have m: "(0xFF :: 32 word) = mask 8"
    by (simp add: mask_eq_exp_minus_1)
  have "push_bit 8 (scast (ucast (drop_bit 8 x) :: uint8_t) :: 32 word)
      + ((scast (ucast x :: uint8_t) :: 32 word) AND mask 8)
    = push_bit 8 (scast (ucast (drop_bit 8 x) :: uint8_t) :: 32 word)
      OR ((scast (ucast x :: uint8_t) :: 32 word) AND mask 8)"
    by (rule disjunctive_add) (auto simp: bit_simps)
  also have "\<dots> = scast x"
  proof (rule bit_word_eqI)
    fix n
    assume "n < LENGTH(32)"
    have a: "8 + min 7 (n - 8) = min 15 n" if "8 \<le> n"
      using that by (auto simp: min_def)
    have b: "min 7 n = min 15 n" if "n < 8"
      using that by (simp add: min_def)
    show "bit (push_bit 8 (scast (ucast (drop_bit 8 x) :: uint8_t) :: 32 word)
       OR ((scast (ucast x :: uint8_t) :: 32 word) AND mask 8)) n = bit (scast x :: 32 word) n"
    proof (cases "n < 8")
      case True
      then show ?thesis by (auto simp: bit_simps b)
    next
      case False
      then have "8 + min 7 (n - 8) = min 15 n" using a by simp
      with False show ?thesis by (auto simp: bit_simps)
    qed
  qed
  finally show ?thesis
    by (simp only: m)
qed

lemma rawAccel_of_bytes_roundtrip:
  "rawAccel_of_bytes (hi_byte_int16 x) (lo_byte_int16 x) = sint x"
proof -
  have "sint (scast x :: 32 word) = sint x"
    by (rule sint_up_scast) (simp add: is_up)
  then show ?thesis
    by (simp only: rawAccel_of_bytes_def hi_byte_int16_eq lo_byte_int16_eq rawAccel_of_bytes_word)
qed

lemma rawAccel_of_big_endian16:
  "big_endian16 x = [b0, b1] \<Longrightarrow> rawAccel_of_bytes b0 b1 = sint x"
  using rawAccel_of_bytes_roundtrip [of x]
  by (simp add: big_endian16_def hi_byte_int16_eq lo_byte_int16_eq)

lemma length_triple_bytes: "length (triple_bytes t) = 6"
  by (cases t) (simp add: triple_bytes_def big_endian16_def)

lemma concat_triples_nth:
  "i < length samples \<Longrightarrow> k < 6 \<Longrightarrow>
   concat (map triple_bytes samples) ! (k + i * 6) = triple_bytes (samples ! i) ! k"
proof (induction samples arbitrary: i)
  case Nil
  then show ?case by simp
next
  case (Cons t samples)
  show ?case
  proof (cases i)
    case 0
    with Cons.prems show ?thesis
      by (simp add: nth_append length_triple_bytes)
  next
    case (Suc i')
    then have "k + i * 6 = 6 + (k + i' * 6)" by simp
    moreover have "i' < length samples" using Cons.prems Suc by simp
    ultimately show ?thesis
      using Cons.IH [of i'] Cons.prems(2) Suc
      by (simp add: nth_append length_triple_bytes)
  qed
qed

lemma wire_frame_payload_nth:
  assumes "i < length samples" and "k < 6"
  shows "wire_frame seq samples ! (ACC_HEADER + k + i * 6) = triple_bytes (samples ! i) ! k"
proof -
  have len: "k + i * 6 < length (concat (map triple_bytes samples))"
  proof -
    have "length (concat (map triple_bytes samples)) = 6 * length samples"
      by (induction samples) (simp_all add: length_triple_bytes)
    then show ?thesis using assms by simp
  qed
  define pre where "pre = [0x7F] @ big_endian16 seq"
  define post where "post = big_endian16 (additive_checksum ([0x7F] @ big_endian16 seq
      @ concat (map triple_bytes samples))) @ [0xFE]"
  have wf: "wire_frame seq samples = pre @ (concat (map triple_bytes samples) @ post)"
    by (simp add: wire_frame_def Let_def pre_def post_def)
  have lp: "length pre = ACC_HEADER"
    by (simp add: pre_def big_endian16_def ACC_HEADER_def)
  have "(pre @ (concat (map triple_bytes samples) @ post)) ! (length pre + (k + i * 6))
      = (concat (map triple_bytes samples) @ post) ! (k + i * 6)"
    by (rule nth_append_length_plus)
  then have "wire_frame seq samples ! (ACC_HEADER + k + i * 6)
      = (concat (map triple_bytes samples) @ post) ! (k + i * 6)"
    by (simp only: wf lp add.assoc)
  also have "\<dots> = concat (map triple_bytes samples) ! (k + i * 6)"
    using len by (simp only: nth_append if_True)
  finally show ?thesis
    using concat_triples_nth [OF assms] by simp
qed

lemma rawAccels_at_wire_frame:
  assumes "i < length samples"
  shows "rawAccels_at ACC_HEADER (wire_frame seq samples) i =
     (case samples ! i of (x, y, z) \<Rightarrow> (sint x, sint y, sint z))"
proof -
  obtain x y z where t: "samples ! i = (x, y, z)"
    by (cases "samples ! i") auto
  have b: "triple_bytes (x, y, z) =
      [hi_byte_int16 x, lo_byte_int16 x, hi_byte_int16 y, lo_byte_int16 y,
       hi_byte_int16 z, lo_byte_int16 z]"
    by (simp add: triple_bytes_def big_endian16_def hi_byte_int16_eq lo_byte_int16_eq)
  have n: "wire_frame seq samples ! (ACC_HEADER + k + i * 6) = triple_bytes (x, y, z) ! k"
    if "k < 6" for k
    using wire_frame_payload_nth [OF assms that] t by simp
  show ?thesis
    unfolding rawAccels_at_def t
    using n [of 0] n [of 1] n [of 2] n [of 3] n [of 4] n [of 5]
    by (simp add: b rawAccel_of_bytes_roundtrip)
qed

lemma rawAccels_at_good_frame:
  "rawAccels_at ACC_HEADER good_frame 0 = (4660, - 32768, 32767)"
  "rawAccels_at header good_frame 0 = (- 1, 4660, - 32768)"
  "rawAccels_at header bad_frame 0 = (- 1, 4661, - 32768)"
  by code_simp+

text \<open>
  Claim C2, as the code has it. The byte unpacking of the host decoder, the first byte
  shifted left by eight with its sign plus the second byte as a value in 0..255, inverts
  the firmware's big-endian encoding of every \<open>int16\<close> value, \<open>-32768\<close> and \<open>32767\<close>
  included; applied to the frame that the firmware sends, at the offset where the firmware
  puts the payload (three bytes in), it returns exactly the raw values the firmware read
  from each sensor.
\<close>

theorem decode_at_payload_offset:
  assumes "active fw" and "i < IMU_NUM fw"
  shows "rawAccels_at ACC_HEADER
           (drop (length (serial_out fw)) (serial_out (sendData fw))) i =
           (case readAccelRaw (imuSensors fw ! i) of (x, y, z) \<Rightarrow> (sint x, sint y, sint z))
         \<and> rawAccel_of_bytes (hi_byte_int16 v) (lo_byte_int16 v) = sint v"
proof -
  have "drop (length (serial_out fw)) (serial_out (sendData fw)) =
      wire_frame (g_seq fw) (map readAccelRaw (imuSensors fw))"
    using sendData_serial_out [OF assms(1)] by simp
  moreover have "i < length (map readAccelRaw (imuSensors fw))"
    using assms(2) by (simp add: IMU_NUM_def)
  ultimately show ?thesis
    using rawAccels_at_wire_frame [of i "map readAccelRaw (imuSensors fw)" "g_seq fw"]
      assms(2)
    by (simp add: rawAccel_of_bytes_roundtrip IMU_NUM_def)
qed

theorem decode_at_payload_offset_witness:
  "rawAccels_at ACC_HEADER (serial_out (sendData fw_streaming)) 0 = (4660, - 32768, 32767)
   \<and> rawAccel_of_bytes (hi_byte_int16 (- 32768)) (lo_byte_int16 (- 32768)) = - 32768
   \<and> rawAccel_of_bytes (hi_byte_int16 32767) (lo_byte_int16 32767) = 32767"
proof -
  have a: "active fw_streaming" and n: "0 < IMU_NUM fw_streaming"
    by (simp_all add: fw_streaming_def IMU_NUM_def)
  show ?thesis
    using decode_at_payload_offset [OF a n, of "- 32768"]
      decode_at_payload_offset [OF a n, of 32767]
    by (simp only: sendData_fw_streaming rawAccels_at_good_frame)
       (simp add: fw_streaming_def readAccelRaw_chip0)
qed

text \<open>
  The sketch itself unpacks one byte in (\<open>header = 1\<close>, a frame with no sequence field):
  on the frame of \<open>fw_streaming\<close> its first value is the sequence counter and the raw
  values come out shifted by one place, so the original triple is not recovered.
\<close>

theorem sketch_decode_counterexample:
  "rawAccels_at header (serial_out (sendData fw_streaming)) 0 = (- 1, 4660, - 32768)
   \<and> (case readAccelRaw (imuSensors fw_streaming ! 0) of (x, y, z) \<Rightarrow> (sint x, sint y, sint z))
       = (4660, - 32768, 32767)"
  by (simp only: sendData_fw_streaming rawAccels_at_good_frame)
     (simp add: fw_streaming_def readAccelRaw_chip0)

section \<open>The per-sensor history\<close>

lemma frame_len_one_sensor: "frame_len one_sensor_config = 8"
  by (simp add: frame_len_def one_sensor_config_def sketch_config_def header_def footer_def)

lemma serialEvent_one_block:
  assumes "length block = 8"
  shows "serialEvent one_sensor_config now (host_idle\<lparr>port_in := block @ rest\<rparr>) =
     Inr (host_idle\<lparr>port_in := rest,
        rawAccels := rawAccels_at header block 0,
        accels := convertRawAccel one_sensor_config (rawAccels_at header block 0),
        accelLists := [[sample_at one_sensor_config block 0]]\<rparr>)"
proof -
  have n: "SENSOR_NUM one_sensor_config = 1" "measurementSensor one_sensor_config = 0"
    by (simp_all add: one_sensor_config_def)
  have "serialEvent one_sensor_config now (host_idle\<lparr>port_in := block @ rest\<rparr>) =
      serialEvent_loop one_sensor_config now block 0 (host_idle\<lparr>port_in := rest\<rparr>)"
    using assms by (simp add: serialEvent_def frame_len_one_sensor host_idle_def)
  also have "\<dots> = serialEvent_loop one_sensor_config now block 1
      (host_idle\<lparr>port_in := rest,
        rawAccels := rawAccels_at header block 0,
        accels := convertRawAccel one_sensor_config (rawAccels_at header block 0),
        accelLists := [[sample_at one_sensor_config block 0]]\<rparr>)"
    by (subst serialEvent_loop.simps)
       (simp add: n Let_def host_idle_def add_evict_def DATA_LEN_one_sensor sample_at_def)
  also have "\<dots> = Inr (host_idle\<lparr>port_in := rest,
        rawAccels := rawAccels_at header block 0,
        accels := convertRawAccel one_sensor_config (rawAccels_at header block 0),
        accelLists := [[sample_at one_sensor_config block 0]]\<rparr>)"
    by (subst serialEvent_loop.simps) (simp add: n)
  finally show ?thesis .
qed


lemma last_add_evict: "0 < W \<Longrightarrow> last (add_evict W xs a) = a \<and> add_evict W xs a \<noteq> []"
  by (cases xs) (auto simp: add_evict_def Let_def)

lemma add_evict_full: "0 < W \<Longrightarrow> length xs = W \<Longrightarrow> add_evict W xs a = tl xs @ [a]"
  by (cases xs) (auto simp: add_evict_def Let_def)

lemma serialEvent_keeps_window:
  assumes "SENSOR_NUM cfg \<le> length (accelLists st)"
    and "\<forall>h \<in> set (accelLists st). length h \<le> DATA_LEN cfg"
    and "serialEvent cfg now st = Inr st'"
  shows "\<forall>h \<in> set (accelLists st'). length h \<le> DATA_LEN cfg"
proof (cases "isSerialReady st \<and> frame_len cfg \<le> length (port_in st)")
  case False
  then have "serialEvent cfg now st = Inr st"
    using serialEvent_idle [of st cfg now] by auto
  with assms(2,3) show ?thesis by simp
next
  case True
  then obtain st'' where r: "serialEvent cfg now st = Inr st''"
    and e: "block_effect cfg now (take (frame_len cfg) (port_in st)) 0
          (st\<lparr>port_in := drop (frame_len cfg) (port_in st)\<rparr>) st''"
    using serialEvent_block [OF _ _ assms(1), of now] by blast
  from r assms(3) have s: "st'' = st'" by simp
  have len: "length (accelLists st') = length (accelLists st)"
    using e s by (simp add: block_effect_def)
  have nth: "length (accelLists st' ! j) \<le> DATA_LEN cfg" if "j < length (accelLists st)" for j
  proof -
    have old: "length (accelLists st ! j) \<le> DATA_LEN cfg"
      using assms(2) that by simp
    have "accelLists st' ! j =
        (if j < SENSOR_NUM cfg
         then add_evict (DATA_LEN cfg) (accelLists st ! j)
                (sample_at cfg (take (frame_len cfg) (port_in st)) j)
         else accelLists st ! j)"
      using e s that by (simp add: block_effect_def)
    then show ?thesis
      using old length_add_evict [OF old] by simp
  qed
  show ?thesis
    using nth len by (auto simp: in_set_conv_nth)
qed

lemma serialEvent_appends:
  assumes "isSerialReady st" and "port_in st = block @ rest"
    and "length block = frame_len cfg" and "SENSOR_NUM cfg \<le> length (accelLists st)"
  shows "\<exists>st'. serialEvent cfg now st = Inr st'
     \<and> isSerialReady st' \<and> port_in st' = rest
     \<and> length (accelLists st') = length (accelLists st)
     \<and> (\<forall>i < SENSOR_NUM cfg. accelLists st' ! i =
           add_evict (DATA_LEN cfg) (accelLists st ! i) (sample_at cfg block i))"
proof -
  have t: "take (frame_len cfg) (port_in st) = block" "drop (frame_len cfg) (port_in st) = rest"
    using assms(2,3) by simp_all
  have "frame_len cfg \<le> length (port_in st)"
    using assms(2,3) by simp
  then obtain st' where r: "serialEvent cfg now st = Inr st'"
    and e: "block_effect cfg now block 0 (st\<lparr>port_in := rest\<rparr>) st'"
    using serialEvent_block [OF assms(1) _ assms(4), of now] t by auto
  have "isSerialReady st'" "port_in st' = rest" "length (accelLists st') = length (accelLists st)"
    using e assms(1) by (simp_all add: block_effect_def)
  moreover have "\<forall>i < SENSOR_NUM cfg. accelLists st' ! i =
           add_evict (DATA_LEN cfg) (accelLists st ! i) (sample_at cfg block i)"
    using e assms(4) by (simp add: block_effect_def)
  ultimately show ?thesis
    using r by blast
qed

lemma serialEvents_blocks:
  "isSerialReady st \<Longrightarrow> \<forall>b \<in> set blocks. length b = frame_len cfg \<Longrightarrow>
   port_in st = concat blocks @ rest \<Longrightarrow> length nows = length blocks \<Longrightarrow>
   SENSOR_NUM cfg \<le> length (accelLists st) \<Longrightarrow>
   \<exists>st'. serialEvents cfg nows st = Inr st'
     \<and> port_in st' = rest
     \<and> length (accelLists st') = length (accelLists st)
     \<and> (\<forall>i < SENSOR_NUM cfg. accelLists st' ! i =
           foldl (add_evict (DATA_LEN cfg)) (accelLists st ! i)
             (map (\<lambda>b. sample_at cfg b i) blocks))"
proof (induction blocks arbitrary: st nows)
  case Nil
  then show ?case by simp
next
  case (Cons b blocks)
  obtain now nows' where n: "nows = now # nows'"
    using Cons.prems(4) by (cases nows) auto
  have p: "port_in st = b @ (concat blocks @ rest)"
    using Cons.prems(3) by simp
  have lb: "length b = frame_len cfg"
    using Cons.prems(2) by simp
  obtain st1 where r1: "serialEvent cfg now st = Inr st1"
    and s1: "isSerialReady st1" "port_in st1 = concat blocks @ rest"
      "length (accelLists st1) = length (accelLists st)"
    and h1: "\<forall>i < SENSOR_NUM cfg. accelLists st1 ! i =
           add_evict (DATA_LEN cfg) (accelLists st ! i) (sample_at cfg b i)"
    using serialEvent_appends [OF Cons.prems(1) p lb Cons.prems(5), of now] by blast
  have "\<forall>b \<in> set blocks. length b = frame_len cfg"
    using Cons.prems(2) by simp
  moreover have "length nows' = length blocks"
    using Cons.prems(4) n by simp
  moreover have "SENSOR_NUM cfg \<le> length (accelLists st1)"
    using Cons.prems(5) s1(3) by simp
  ultimately obtain st' where r: "serialEvents cfg nows' st1 = Inr st'"
    and s: "port_in st' = rest" "length (accelLists st') = length (accelLists st1)"
    and h: "\<forall>i < SENSOR_NUM cfg. accelLists st' ! i =
           foldl (add_evict (DATA_LEN cfg)) (accelLists st1 ! i)
             (map (\<lambda>b. sample_at cfg b i) blocks)"
    using Cons.IH [OF s1(1) _ s1(2), of nows'] by blast
  have "serialEvents cfg nows st = Inr st'"
    using r r1 n by simp
  moreover have "\<forall>i < SENSOR_NUM cfg. accelLists st' ! i =
           foldl (add_evict (DATA_LEN cfg)) (accelLists st ! i)
             (map (\<lambda>b. sample_at cfg b i) (b # blocks))"
    using h h1 by simp
  ultimately show ?case
    using s s1(3) by auto
qed

lemma frame_len_small_window: "frame_len small_window_config = 8"
  by (simp add: frame_len_def small_window_config_def header_def footer_def)

lemma sample_at_three_blocks:
  "sample_at cfg (three_blocks ! 0) 0 = Accel_of_raw cfg 1 2 3"
  "sample_at cfg (three_blocks ! 1) 0 = Accel_of_raw cfg 4 5 6"
  "sample_at cfg (three_blocks ! 2) 0 = Accel_of_raw cfg (- 1) (- 32768) 32767"
proof -
  have "rawAccels_at header (three_blocks ! 0) 0 = (1, 2, 3)"
    "rawAccels_at header (three_blocks ! 1) 0 = (4, 5, 6)"
    "rawAccels_at header (three_blocks ! 2) 0 = (- 1, - 32768, 32767)"
    by code_simp+
  then show "sample_at cfg (three_blocks ! 0) 0 = Accel_of_raw cfg 1 2 3"
    "sample_at cfg (three_blocks ! 1) 0 = Accel_of_raw cfg 4 5 6"
    "sample_at cfg (three_blocks ! 2) 0 = Accel_of_raw cfg (- 1) (- 32768) 32767"
    by (simp_all add: sample_at_def)
qed

lemma serialEvent_keeps_histories:
  assumes "SENSOR_NUM cfg \<le> length (accelLists st)"
    and "serialEvent cfg now st = Inr st'"
  shows "length (accelLists st') = length (accelLists st)"
proof (cases "isSerialReady st \<and> frame_len cfg \<le> length (port_in st)")
  case False
  then have "serialEvent cfg now st = Inr st"
    using serialEvent_idle [of st cfg now] by auto
  with assms(2) show ?thesis by simp
next
  case True
  then obtain st'' where r: "serialEvent cfg now st = Inr st''"
    and e: "block_effect cfg now (take (frame_len cfg) (port_in st)) 0
          (st\<lparr>port_in := drop (frame_len cfg) (port_in st)\<rparr>) st''"
    using serialEvent_block [OF _ _ assms(1), of now] by blast
  from r assms(2) have "st'' = st'" by simp
  then show ?thesis
    using e by (simp add: block_effect_def)
qed

lemma serialEvents_keeps_window:
  "SENSOR_NUM cfg \<le> length (accelLists st) \<Longrightarrow>
   \<forall>h \<in> set (accelLists st). length h \<le> DATA_LEN cfg \<Longrightarrow>
   serialEvents cfg nows st = Inr st' \<Longrightarrow>
   \<forall>h \<in> set (accelLists st'). length h \<le> DATA_LEN cfg"
proof (induction nows arbitrary: st)
  case Nil
  then show ?case by simp
next
  case (Cons now nows)
  from Cons.prems(3) obtain st1 where r: "serialEvent cfg now st = Inr st1"
    and r': "serialEvents cfg nows st1 = Inr st'"
    by (cases "serialEvent cfg now st") simp_all
  have "SENSOR_NUM cfg \<le> length (accelLists st1)"
    using serialEvent_keeps_histories [OF Cons.prems(1) r] Cons.prems(1) by simp
  moreover have "\<forall>h \<in> set (accelLists st1). length h \<le> DATA_LEN cfg"
    using serialEvent_keeps_window [OF Cons.prems(1,2) r] .
  ultimately show ?case
    using Cons.IH [OF _ _ r'] by blast
qed

text \<open>
  Claim C6. Each call of \<open>serialEvent\<close> that reads a block appends that block's sample
  for sensor \<open>i\<close> to the history of sensor \<open>i\<close> and then, if the history holds more than
  \<open>W = DATA_LEN\<close> samples, drops the oldest: a history shorter than \<open>W\<close> grows by the
  sample, a full one loses its first sample and gains the new one at the end. A run of
  calls that starts from an empty history and reads a sequence of blocks leaves in the
  history the last \<open>W\<close> of their samples, in the order received, never more than \<open>W\<close>;
  after \<open>W + 1\<close> blocks that is all but the first. A call of \<open>serialEvent\<close>, and so
  every run of calls, keeps every history within \<open>DATA_LEN\<close>, whatever the port holds.
\<close>

theorem history_window:
  "length (foldl (add_evict W) [] ss) \<le> W
   \<and> foldl (add_evict W) [] ss = drop (length ss - W) ss
   \<and> (length ss = W + 1 \<longrightarrow> foldl (add_evict W) [] ss = tl ss)
   \<and> (length xs \<le> W \<longrightarrow> length (add_evict W xs a) \<le> W)
   \<and> (0 < W \<and> length xs = W \<longrightarrow> add_evict W xs a = tl xs @ [a])
   \<and> (SENSOR_NUM cfg \<le> length (accelLists st)
        \<and> (\<forall>h \<in> set (accelLists st). length h \<le> DATA_LEN cfg)
        \<and> serialEvent cfg now st = Inr st'
      \<longrightarrow> (\<forall>h \<in> set (accelLists st'). length h \<le> DATA_LEN cfg))
   \<and> (isSerialReady st \<and> port_in st = block @ rest \<and> length block = frame_len cfg
        \<and> SENSOR_NUM cfg \<le> length (accelLists st) \<and> i < SENSOR_NUM cfg
      \<longrightarrow> (\<exists>st1. serialEvent cfg now st = Inr st1
            \<and> port_in st1 = rest
            \<and> length (accelLists st1) = length (accelLists st)
            \<and> accelLists st1 ! i =
                add_evict (DATA_LEN cfg) (accelLists st ! i) (sample_at cfg block i)
            \<and> (length (accelLists st ! i) < DATA_LEN cfg \<longrightarrow>
                 accelLists st1 ! i = accelLists st ! i @ [sample_at cfg block i])
            \<and> (0 < DATA_LEN cfg \<and> length (accelLists st ! i) = DATA_LEN cfg \<longrightarrow>
                 accelLists st1 ! i = tl (accelLists st ! i) @ [sample_at cfg block i])))
   \<and> (isSerialReady st \<and> (\<forall>b \<in> set blocks. length b = frame_len cfg)
        \<and> port_in st = concat blocks @ rest \<and> length nows = length blocks
        \<and> SENSOR_NUM cfg \<le> length (accelLists st) \<and> i < SENSOR_NUM cfg
        \<and> accelLists st ! i = []
      \<longrightarrow> (\<exists>st2. serialEvents cfg nows st = Inr st2
            \<and> port_in st2 = rest
            \<and> length (accelLists st2) = length (accelLists st)
            \<and> accelLists st2 ! i =
                drop (length blocks - DATA_LEN cfg) (map (\<lambda>b. sample_at cfg b i) blocks)
            \<and> length (accelLists st2 ! i) = min (DATA_LEN cfg) (length blocks)
            \<and> (length blocks = DATA_LEN cfg + 1 \<longrightarrow>
                 accelLists st2 ! i = tl (map (\<lambda>b. sample_at cfg b i) blocks))))
   \<and> (SENSOR_NUM cfg \<le> length (accelLists st)
        \<and> (\<forall>h \<in> set (accelLists st). length h \<le> DATA_LEN cfg)
        \<and> serialEvents cfg nows st = Inr st''
      \<longrightarrow> (\<forall>h \<in> set (accelLists st''). length h \<le> DATA_LEN cfg))"
proof -
  have c3: "length ss = W + 1 \<longrightarrow> foldl (add_evict W) [] ss = tl ss"
    by (simp add: foldl_add_evict drop_Suc)
  have c6: "SENSOR_NUM cfg \<le> length (accelLists st)
        \<and> (\<forall>h \<in> set (accelLists st). length h \<le> DATA_LEN cfg)
        \<and> serialEvent cfg now st = Inr st'
      \<longrightarrow> (\<forall>h \<in> set (accelLists st'). length h \<le> DATA_LEN cfg)"
    using serialEvent_keeps_window [of cfg st now st'] by blast
  have c7: "\<exists>st1. serialEvent cfg now st = Inr st1
            \<and> port_in st1 = rest
            \<and> length (accelLists st1) = length (accelLists st)
            \<and> accelLists st1 ! i =
                add_evict (DATA_LEN cfg) (accelLists st ! i) (sample_at cfg block i)
            \<and> (length (accelLists st ! i) < DATA_LEN cfg \<longrightarrow>
                 accelLists st1 ! i = accelLists st ! i @ [sample_at cfg block i])
            \<and> (0 < DATA_LEN cfg \<and> length (accelLists st ! i) = DATA_LEN cfg \<longrightarrow>
                 accelLists st1 ! i = tl (accelLists st ! i) @ [sample_at cfg block i])"
    if h: "isSerialReady st" "port_in st = block @ rest" "length block = frame_len cfg"
      "SENSOR_NUM cfg \<le> length (accelLists st)" "i < SENSOR_NUM cfg"
  proof -
    obtain st1 where r: "serialEvent cfg now st = Inr st1" and p: "port_in st1 = rest"
      and l: "length (accelLists st1) = length (accelLists st)"
      and a: "accelLists st1 ! i =
          add_evict (DATA_LEN cfg) (accelLists st ! i) (sample_at cfg block i)"
      using serialEvent_appends [OF h(1,2,3,4), of now] h(5) by blast
    have "length (accelLists st ! i) < DATA_LEN cfg \<longrightarrow>
        accelLists st1 ! i = accelLists st ! i @ [sample_at cfg block i]"
      using a by (simp add: add_evict_def)
    moreover have "0 < DATA_LEN cfg \<and> length (accelLists st ! i) = DATA_LEN cfg \<longrightarrow>
        accelLists st1 ! i = tl (accelLists st ! i) @ [sample_at cfg block i]"
      using a by (simp add: add_evict_full)
    ultimately show ?thesis
      using r p l a by blast
  qed
  have c8: "\<exists>st2. serialEvents cfg nows st = Inr st2
            \<and> port_in st2 = rest
            \<and> length (accelLists st2) = length (accelLists st)
            \<and> accelLists st2 ! i =
                drop (length blocks - DATA_LEN cfg) (map (\<lambda>b. sample_at cfg b i) blocks)
            \<and> length (accelLists st2 ! i) = min (DATA_LEN cfg) (length blocks)
            \<and> (length blocks = DATA_LEN cfg + 1 \<longrightarrow>
                 accelLists st2 ! i = tl (map (\<lambda>b. sample_at cfg b i) blocks))"
    if h: "isSerialReady st" "\<forall>b \<in> set blocks. length b = frame_len cfg"
      "port_in st = concat blocks @ rest" "length nows = length blocks"
      "SENSOR_NUM cfg \<le> length (accelLists st)" "i < SENSOR_NUM cfg"
      "accelLists st ! i = []"
  proof -
    obtain st2 where r: "serialEvents cfg nows st = Inr st2" and p: "port_in st2 = rest"
      and l: "length (accelLists st2) = length (accelLists st)"
      and a: "accelLists st2 ! i = foldl (add_evict (DATA_LEN cfg)) (accelLists st ! i)
             (map (\<lambda>b. sample_at cfg b i) blocks)"
      using serialEvents_blocks [OF h(1,2,3,4,5)] h(6) by blast
    have d: "accelLists st2 ! i =
        drop (length blocks - DATA_LEN cfg) (map (\<lambda>b. sample_at cfg b i) blocks)"
      using a h(7) foldl_add_evict [of "DATA_LEN cfg" "map (\<lambda>b. sample_at cfg b i) blocks"]
      by simp
    have "length (accelLists st2 ! i) = min (DATA_LEN cfg) (length blocks)"
      by (simp add: d)
    moreover have "length blocks = DATA_LEN cfg + 1 \<longrightarrow>
        accelLists st2 ! i = tl (map (\<lambda>b. sample_at cfg b i) blocks)"
      by (simp add: d drop_Suc)
    ultimately show ?thesis
      using r p l d by blast
  qed
  have c9: "SENSOR_NUM cfg \<le> length (accelLists st)
        \<and> (\<forall>h \<in> set (accelLists st). length h \<le> DATA_LEN cfg)
        \<and> serialEvents cfg nows st = Inr st''
      \<longrightarrow> (\<forall>h \<in> set (accelLists st''). length h \<le> DATA_LEN cfg)"
    using serialEvents_keeps_window [of cfg st nows st''] by blast
  show ?thesis
    apply (intro conjI)
            apply (simp add: foldl_add_evict)
           apply (rule foldl_add_evict)
          apply (rule c3)
         apply (simp add: length_add_evict)
        apply (simp add: add_evict_full)
       apply (rule c6)
      apply (intro impI, elim conjE, erule (4) c7)
     apply (intro impI, elim conjE, erule (6) c8)
    apply (rule c9)
    done
qed

theorem history_window_witness:
  "foldl (add_evict 2) [] [10, 20, 30 :: nat] = [20, 30]
   \<and> add_evict 2 [10, 20] (30 :: nat) = [20, 30]
   \<and> length [sample_at one_sensor_config (take 8 good_frame) 0] \<le> DATA_LEN one_sensor_config
   \<and> DATA_LEN small_window_config = 2
   \<and> (\<exists>st1. serialEvent small_window_config 1
              (host_idle\<lparr>port_in := concat three_blocks\<rparr>) = Inr st1
         \<and> port_in st1 = concat (tl three_blocks)
         \<and> accelLists st1 ! 0 = [Accel_of_raw small_window_config 1 2 3])
   \<and> (\<exists>st2. serialEvents small_window_config [1, 2, 3]
              (host_idle\<lparr>port_in := concat three_blocks\<rparr>) = Inr st2
         \<and> port_in st2 = []
         \<and> accelLists st2 ! 0 =
             [Accel_of_raw small_window_config 4 5 6,
              Accel_of_raw small_window_config (- 1) (- 32768) 32767]
         \<and> length (accelLists st2 ! 0) \<le> DATA_LEN small_window_config)"
proof -
  define st0 where "st0 = host_idle\<lparr>port_in := take 8 good_frame @ drop 8 good_frame\<rparr>"
  define st1 where "st1 = host_idle\<lparr>port_in := drop 8 good_frame,
        rawAccels := rawAccels_at header (take 8 good_frame) 0,
        accels := convertRawAccel one_sensor_config (rawAccels_at header (take 8 good_frame) 0),
        accelLists := [[sample_at one_sensor_config (take 8 good_frame) 0]]\<rparr>"
  define sw where "sw = host_idle\<lparr>port_in := concat three_blocks\<rparr>"
  have e: "serialEvent one_sensor_config 0 st0 = Inr st1"
    unfolding st0_def st1_def by (rule serialEvent_one_block) (simp add: good_frame_def)
  have f1: "SENSOR_NUM one_sensor_config \<le> length (accelLists st0)"
    by (simp add: st0_def host_idle_def one_sensor_config_def)
  have f2: "\<forall>h \<in> set (accelLists st0). length h \<le> DATA_LEN one_sensor_config"
    by (simp add: st0_def host_idle_def)
  note h = history_window [of 2 "[10, 20, 30 :: nat]" "[10, 20 :: nat]" "30 :: nat"
      one_sensor_config st0 0 st1]
  have "foldl (add_evict 2) [] [10, 20, 30 :: nat] = drop (length [10, 20, 30 :: nat] - 2) [10, 20, 30]"
    by (rule h [THEN conjunct2, THEN conjunct1])
  then have a: "foldl (add_evict 2) [] [10, 20, 30 :: nat] = [20, 30]"
    by simp
  have "add_evict 2 [10, 20] (30 :: nat) = tl [10, 20] @ [30]"
    by (rule h [THEN conjunct2, THEN conjunct2, THEN conjunct2, THEN conjunct2,
          THEN conjunct1, THEN mp]) simp
  then have b: "add_evict 2 [10, 20] (30 :: nat) = [20, 30]"
    by simp
  have "\<forall>h \<in> set (accelLists st1). length h \<le> DATA_LEN one_sensor_config"
    by (rule h [THEN conjunct2, THEN conjunct2, THEN conjunct2, THEN conjunct2,
          THEN conjunct2, THEN conjunct1, THEN mp])
       (intro conjI f1 f2 e)
  then have c: "length [sample_at one_sensor_config (take 8 good_frame) 0]
      \<le> DATA_LEN one_sensor_config"
    by (simp add: st1_def)
  have g1: "isSerialReady sw" "SENSOR_NUM small_window_config \<le> length (accelLists sw)"
    "(0::nat) < SENSOR_NUM small_window_config" "accelLists sw ! 0 = []"
    by (simp_all add: sw_def host_idle_def small_window_config_def)
  have g2: "port_in sw = hd three_blocks @ concat (tl three_blocks)"
    "length (hd three_blocks) = frame_len small_window_config"
    by (simp_all add: sw_def three_blocks_def frame_len_small_window)
  have g3: "\<forall>b \<in> set three_blocks. length b = frame_len small_window_config"
    "port_in sw = concat three_blocks @ []" "length [1, 2, 3 :: int] = length three_blocks"
    by (simp_all add: sw_def three_blocks_def frame_len_small_window)
  note k = history_window [where cfg = small_window_config and st = sw and now = 1
      and block = "hd three_blocks" and rest = "concat (tl three_blocks)" and i = 0]
  note m = history_window [where cfg = small_window_config and st = sw
      and blocks = three_blocks and rest = "[]" and nows = "[1, 2, 3]" and i = 0]
  have s0: "sample_at small_window_config (hd three_blocks) 0 = Accel_of_raw small_window_config 1 2 3"
    using sample_at_three_blocks(1) [of small_window_config] by (simp add: three_blocks_def)
  have sm: "map (\<lambda>b. sample_at small_window_config b 0) three_blocks =
      [Accel_of_raw small_window_config 1 2 3, Accel_of_raw small_window_config 4 5 6,
       Accel_of_raw small_window_config (- 1) (- 32768) 32767]"
    using sample_at_three_blocks [of small_window_config] by (simp add: three_blocks_def)
  have "\<exists>st1. serialEvent small_window_config 1 sw = Inr st1
      \<and> port_in st1 = concat (tl three_blocks)
      \<and> length (accelLists st1) = length (accelLists sw)
      \<and> accelLists st1 ! 0 = add_evict (DATA_LEN small_window_config) (accelLists sw ! 0)
          (sample_at small_window_config (hd three_blocks) 0)
      \<and> (length (accelLists sw ! 0) < DATA_LEN small_window_config \<longrightarrow>
           accelLists st1 ! 0 = accelLists sw ! 0 @ [sample_at small_window_config (hd three_blocks) 0])
      \<and> (0 < DATA_LEN small_window_config \<and> length (accelLists sw ! 0) = DATA_LEN small_window_config \<longrightarrow>
           accelLists st1 ! 0 = tl (accelLists sw ! 0) @ [sample_at small_window_config (hd three_blocks) 0])"
    by (rule k [THEN conjunct2, THEN conjunct2, THEN conjunct2, THEN conjunct2,
          THEN conjunct2, THEN conjunct2, THEN conjunct1, THEN mp])
       (intro conjI g1 g2)
  then obtain t1 where "serialEvent small_window_config 1 sw = Inr t1"
    "port_in t1 = concat (tl three_blocks)"
    "accelLists t1 ! 0 = add_evict (DATA_LEN small_window_config) (accelLists sw ! 0)
        (sample_at small_window_config (hd three_blocks) 0)"
    by blast
  then have d: "\<exists>st1. serialEvent small_window_config 1 sw = Inr st1
         \<and> port_in st1 = concat (tl three_blocks)
         \<and> accelLists st1 ! 0 = [Accel_of_raw small_window_config 1 2 3]"
    by (simp add: g1 s0 DATA_LEN_small_window add_evict_def)
  have "\<exists>st2. serialEvents small_window_config [1, 2, 3] sw = Inr st2
      \<and> port_in st2 = []
      \<and> length (accelLists st2) = length (accelLists sw)
      \<and> accelLists st2 ! 0 = drop (length three_blocks - DATA_LEN small_window_config)
          (map (\<lambda>b. sample_at small_window_config b 0) three_blocks)
      \<and> length (accelLists st2 ! 0) = min (DATA_LEN small_window_config) (length three_blocks)
      \<and> (length three_blocks = DATA_LEN small_window_config + 1 \<longrightarrow>
           accelLists st2 ! 0 = tl (map (\<lambda>b. sample_at small_window_config b 0) three_blocks))"
    by (rule m [THEN conjunct2, THEN conjunct2, THEN conjunct2, THEN conjunct2,
          THEN conjunct2, THEN conjunct2, THEN conjunct2, THEN conjunct1, THEN mp])
       (intro conjI g1 g3)
  then obtain t2 where t2: "serialEvents small_window_config [1, 2, 3] sw = Inr t2"
    "port_in t2 = []" "length (accelLists t2) = length (accelLists sw)"
    "accelLists t2 ! 0 = drop (length three_blocks - DATA_LEN small_window_config)
        (map (\<lambda>b. sample_at small_window_config b 0) three_blocks)"
    by blast
  have g4: "\<forall>h \<in> set (accelLists sw). length h \<le> DATA_LEN small_window_config"
    by (simp add: sw_def host_idle_def)
  have "\<forall>h \<in> set (accelLists t2). length h \<le> DATA_LEN small_window_config"
    by (rule history_window [where cfg = small_window_config and st = sw
          and nows = "[1, 2, 3]" and st'' = t2,
          THEN conjunct2, THEN conjunct2, THEN conjunct2, THEN conjunct2,
          THEN conjunct2, THEN conjunct2, THEN conjunct2, THEN conjunct2, THEN mp])
       (intro conjI g1 g4 t2)
  moreover have "0 < length (accelLists t2)"
    using t2(3) by (simp add: sw_def host_idle_def)
  ultimately have bd: "length (accelLists t2 ! 0) \<le> DATA_LEN small_window_config"
    by simp
  have "accelLists t2 ! 0 =
             [Accel_of_raw small_window_config 4 5 6,
              Accel_of_raw small_window_config (- 1) (- 32768) 32767]"
    using t2(4) by (simp add: sm DATA_LEN_small_window) (simp add: three_blocks_def)
  with t2 bd have f: "\<exists>st2. serialEvents small_window_config [1, 2, 3] sw = Inr st2
         \<and> port_in st2 = []
         \<and> accelLists st2 ! 0 =
             [Accel_of_raw small_window_config 4 5 6,
              Accel_of_raw small_window_config (- 1) (- 32768) 32767]
         \<and> length (accelLists st2 ! 0) \<le> DATA_LEN small_window_config"
    by blast
  from a b c d f DATA_LEN_small_window show ?thesis
    unfolding sw_def by blast
qed

section \<open>No validation on the host\<close>

text \<open>
  Claim C3, as the code has it. \<open>serialEvent\<close> looks for no header and checks neither a
  checksum nor the footer. Whenever a whole block of \<open>frame_len\<close> bytes is waiting it
  takes the first \<open>frame_len\<close> bytes, whatever they are, appends the sample it unpacks
  for each sensor to that sensor's history and leaves exactly the bytes after the block
  in the port. Hence a byte corrupted inside a block changes the value it belongs to and
  nothing else: the block is not rejected, and the bytes that follow are read from the
  same position as without the corruption.
\<close>

theorem serialEvent_takes_every_block:
  assumes "isSerialReady st" and "port_in st = block @ rest"
    and "length block = frame_len cfg" and "SENSOR_NUM cfg \<le> length (accelLists st)"
  shows "\<exists>st'. serialEvent cfg now st = Inr st'
     \<and> port_in st' = rest
     \<and> length (accelLists st') = length (accelLists st)
     \<and> (\<forall>i < SENSOR_NUM cfg. accelLists st' ! i =
           add_evict (DATA_LEN cfg) (accelLists st ! i) (sample_at cfg block i))"
proof -
  have t: "take (frame_len cfg) (port_in st) = block" "drop (frame_len cfg) (port_in st) = rest"
    using assms(2,3) by simp_all
  have "frame_len cfg \<le> length (port_in st)"
    using assms(2,3) by simp
  then obtain st' where r: "serialEvent cfg now st = Inr st'"
    and e: "block_effect cfg now block 0 (st\<lparr>port_in := rest\<rparr>) st'"
    using serialEvent_block [OF assms(1) _ assms(4), of now] t by auto
  have "port_in st' = rest" "length (accelLists st') = length (accelLists st)"
    using e by (simp_all add: block_effect_def)
  moreover have "\<forall>i < SENSOR_NUM cfg. accelLists st' ! i =
           add_evict (DATA_LEN cfg) (accelLists st ! i) (sample_at cfg block i)"
    using e assms(4) by (simp add: block_effect_def)
  ultimately show ?thesis
    using r by blast
qed

lemma sample_at_bad_frame:
  "sample_at one_sensor_config (take 8 bad_frame) 0 = Accel_of_raw one_sensor_config (- 1) 4661 (- 32768)"
proof -
  have "rawAccels_at header (take 8 bad_frame) 0 = (- 1, 4661, - 32768)"
    by code_simp
  then show ?thesis
    by (simp add: sample_at_def)
qed

theorem serialEvent_takes_every_block_witness:
  "\<exists>st'. serialEvent one_sensor_config 0 (host_idle\<lparr>port_in := bad_frame\<rparr>) = Inr st'
     \<and> port_in st' = [0xFF, 0x04, 0xC1, 0xFE]
     \<and> accelLists st' ! 0 = [Accel_of_raw one_sensor_config (- 1) 4661 (- 32768)]"
proof -
  have a: "isSerialReady (host_idle\<lparr>port_in := bad_frame\<rparr>)"
    by (simp add: host_idle_def)
  have b: "port_in (host_idle\<lparr>port_in := bad_frame\<rparr>) = take 8 bad_frame @ [0xFF, 0x04, 0xC1, 0xFE]"
    by (simp add: bad_frame_def)
  have c: "length (take 8 bad_frame) = frame_len one_sensor_config"
    by (simp add: frame_len_one_sensor bad_frame_def)
  have d: "SENSOR_NUM one_sensor_config \<le> length (accelLists (host_idle\<lparr>port_in := bad_frame\<rparr>))"
    by (simp add: host_idle_def one_sensor_config_def)
  have n: "0 < SENSOR_NUM one_sensor_config"
    by (simp add: one_sensor_config_def)
  have h: "accelLists (host_idle\<lparr>port_in := bad_frame\<rparr>) ! 0 = []"
    by (simp add: host_idle_def)
  obtain st' where r: "serialEvent one_sensor_config 0 (host_idle\<lparr>port_in := bad_frame\<rparr>) = Inr st'"
    and p: "port_in st' = [0xFF, 0x04, 0xC1, 0xFE]"
    and l: "\<forall>i < SENSOR_NUM one_sensor_config. accelLists st' ! i =
           add_evict (DATA_LEN one_sensor_config) (accelLists (host_idle\<lparr>port_in := bad_frame\<rparr>) ! i)
             (sample_at one_sensor_config (take 8 bad_frame) i)"
    using serialEvent_takes_every_block [OF a b c d, of 0] by blast
  from l n have "accelLists st' ! 0 =
      add_evict (DATA_LEN one_sensor_config) [] (sample_at one_sensor_config (take 8 bad_frame) 0)"
    using h by simp
  then have "accelLists st' ! 0 = [Accel_of_raw one_sensor_config (- 1) 4661 (- 32768)]"
    by (simp add: add_evict_def DATA_LEN_one_sensor sample_at_bad_frame)
  with r p show ?thesis by blast
qed

lemma bad_frame_checksum:
  "big_endian16 (additive_checksum (take 9 bad_frame)) = [0x04, 0xC2]"
  by (simp add: additive_checksum_def bad_frame_def big_endian16_def)

text \<open>
  The claim as stated fails on a frame with one corrupted payload byte: the first byte is
  the header constant, the checksum over the bytes before the checksum field is
  \<open>0x04C2\<close> while the field holds \<open>0x04C1\<close>, and still \<open>serialEvent\<close> stores a sample
  and goes on eight bytes later, not at the second byte.
\<close>

theorem corrupted_frame_counterexample:
  "hd bad_frame = HEADER
   \<and> big_endian16 (additive_checksum (take 9 bad_frame)) = [0x04, 0xC2]
   \<and> [bad_frame ! 9, bad_frame ! 10] = [0x04, 0xC1]
   \<and> serialEvent one_sensor_config 0 (host_idle\<lparr>port_in := bad_frame\<rparr>) =
       Inr (host_idle\<lparr>port_in := [0xFF, 0x04, 0xC1, 0xFE],
         rawAccels := (- 1, 4661, - 32768),
         accels := convertRawAccel one_sensor_config (- 1, 4661, - 32768),
         accelLists := [[Accel_of_raw one_sensor_config (- 1) 4661 (- 32768)]]\<rparr>)"
proof -
  have r: "rawAccels_at header (take 8 bad_frame) 0 = (- 1, 4661, - 32768)"
    by code_simp
  have "bad_frame = take 8 bad_frame @ [0xFF, 0x04, 0xC1, 0xFE]"
    by (simp add: bad_frame_def)
  moreover have "length (take 8 bad_frame) = 8"
    by (simp add: bad_frame_def)
  ultimately have "serialEvent one_sensor_config 0 (host_idle\<lparr>port_in := bad_frame\<rparr>) =
       Inr (host_idle\<lparr>port_in := [0xFF, 0x04, 0xC1, 0xFE],
         rawAccels := rawAccels_at header (take 8 bad_frame) 0,
         accels := convertRawAccel one_sensor_config (rawAccels_at header (take 8 bad_frame) 0),
         accelLists := [[sample_at one_sensor_config (take 8 bad_frame) 0]]\<rparr>)"
    using serialEvent_one_block [of "take 8 bad_frame" 0 "[0xFF, 0x04, 0xC1, 0xFE]"] by simp
  then show ?thesis
    by (simp only: r sample_at_bad_frame bad_frame_checksum)
       (simp add: bad_frame_def HEADER_def)
qed

section \<open>Physical units\<close>

text \<open>
  Claim C5. For every raw count \<open>r\<close> the conversion to g is
  \<open>r * (2 * FULL_SCALE) / 65536\<close>, in \<open>convertToG\<close> and in each component of
  \<open>convertRawAccel\<close>, and the sample that \<open>serialEvent\<close> stores in the history of
  sensor \<open>i\<close> carries, on each of its three axes, that value times \<open>9.8\<close>, where the
  raw counts are the ones unpacked for sensor \<open>i\<close> from the block. (Real arithmetic
  stands for Java's \<open>float\<close>.)
\<close>

theorem stored_sample_units:
  assumes "isSerialReady st" and "frame_len cfg \<le> length (port_in st)"
    and "SENSOR_NUM cfg \<le> length (accelLists st)" and "i < SENSOR_NUM cfg"
    and "0 < DATA_LEN cfg"
  shows "\<exists>st' r0 r1 r2. serialEvent cfg now st = Inr st'
     \<and> rawAccels_at header (take (frame_len cfg) (port_in st)) i = (r0, r1, r2)
     \<and> convertRawAccel cfg (r0, r1, r2) =
         (of_int r0 * (2 * FULL_SCALE cfg) / 65536,
          of_int r1 * (2 * FULL_SCALE cfg) / 65536,
          of_int r2 * (2 * FULL_SCALE cfg) / 65536)
     \<and> accelLists st' ! i \<noteq> []
     \<and> last (accelLists st' ! i) =
         \<lparr>ax = of_int r0 * (2 * FULL_SCALE cfg) / 65536 * 9.8,
          ay = of_int r1 * (2 * FULL_SCALE cfg) / 65536 * 9.8,
          az = of_int r2 * (2 * FULL_SCALE cfg) / 65536 * 9.8\<rparr>
     \<and> convertToG cfg r = of_int r * (2 * FULL_SCALE cfg) / 65536
     \<and> convertToMS2 (convertToG cfg r) = of_int r * (2 * FULL_SCALE cfg) / 65536 * 9.8"
proof -
  obtain st' where r: "serialEvent cfg now st = Inr st'"
    and e: "block_effect cfg now (take (frame_len cfg) (port_in st)) 0
          (st\<lparr>port_in := drop (frame_len cfg) (port_in st)\<rparr>) st'"
    using serialEvent_block [OF assms(1,2,3), of now] by blast
  obtain r0 r1 r2 where raw: "rawAccels_at header (take (frame_len cfg) (port_in st)) i = (r0, r1, r2)"
    by (cases "rawAccels_at header (take (frame_len cfg) (port_in st)) i") auto
  have "accelLists st' ! i = add_evict (DATA_LEN cfg) (accelLists st ! i)
      (sample_at cfg (take (frame_len cfg) (port_in st)) i)"
    using e assms(3,4) by (simp add: block_effect_def)
  then have ne: "accelLists st' ! i \<noteq> []"
    and la: "last (accelLists st' ! i) = sample_at cfg (take (frame_len cfg) (port_in st)) i"
    using last_add_evict [OF assms(5), of "accelLists st ! i"
        "sample_at cfg (take (frame_len cfg) (port_in st)) i"]
    by simp_all
  have sa: "sample_at cfg (take (frame_len cfg) (port_in st)) i =
      \<lparr>ax = of_int r0 * (2 * FULL_SCALE cfg) / 65536 * 9.8,
       ay = of_int r1 * (2 * FULL_SCALE cfg) / 65536 * 9.8,
       az = of_int r2 * (2 * FULL_SCALE cfg) / 65536 * 9.8\<rparr>"
    by (simp add: sample_at_def raw Accel_of_raw_def convertToMS2_def convertToG_def)
  have cr: "convertRawAccel cfg (r0, r1, r2) =
         (of_int r0 * (2 * FULL_SCALE cfg) / 65536,
          of_int r1 * (2 * FULL_SCALE cfg) / 65536,
          of_int r2 * (2 * FULL_SCALE cfg) / 65536)"
    by (simp add: convertRawAccel_def)
  have g: "convertToG cfg r = of_int r * (2 * FULL_SCALE cfg) / 65536"
    and m: "convertToMS2 (convertToG cfg r) = of_int r * (2 * FULL_SCALE cfg) / 65536 * 9.8"
    by (simp_all add: convertToMS2_def convertToG_def)
  show ?thesis
    apply (rule exI [of _ st'], rule exI [of _ r0], rule exI [of _ r1], rule exI [of _ r2])
    apply (intro conjI)
          apply (rule r)
         apply (rule raw)
        apply (rule cr)
       apply (rule ne)
      apply (simp only: la sa)
     apply (rule g)
    apply (rule m)
    done
qed


theorem stored_sample_units_witness:
  "\<exists>st'. serialEvent one_sensor_config 0 (host_idle\<lparr>port_in := good_frame\<rparr>) = Inr st'
     \<and> last (accelLists st' ! 0) =
         \<lparr>ax = of_int (- 1) * (2 * 16) / 65536 * 9.8,
          ay = of_int 4660 * (2 * 16) / 65536 * 9.8,
          az = of_int (- 32768) * (2 * 16) / 65536 * 9.8\<rparr>
     \<and> convertToG one_sensor_config 16384 = 8"
proof -
  have a: "isSerialReady (host_idle\<lparr>port_in := good_frame\<rparr>)"
    by (simp add: host_idle_def)
  have b: "frame_len one_sensor_config \<le> length (port_in (host_idle\<lparr>port_in := good_frame\<rparr>))"
    by (simp add: frame_len_one_sensor good_frame_def)
  have c: "SENSOR_NUM one_sensor_config \<le> length (accelLists (host_idle\<lparr>port_in := good_frame\<rparr>))"
    by (simp add: host_idle_def one_sensor_config_def)
  have d: "0 < SENSOR_NUM one_sensor_config"
    by (simp add: one_sensor_config_def)
  have e: "0 < DATA_LEN one_sensor_config"
    by (simp add: DATA_LEN_one_sensor)
  have f: "FULL_SCALE one_sensor_config = 16"
    by (simp add: one_sensor_config_def sketch_config_def)
  have g: "rawAccels_at header (take (frame_len one_sensor_config) good_frame) 0
      = (- 1, 4660, - 32768)"
    unfolding frame_len_one_sensor by code_simp
  obtain st' r0 r1 r2 where r: "serialEvent one_sensor_config 0 (host_idle\<lparr>port_in := good_frame\<rparr>) = Inr st'"
    and raw: "rawAccels_at header (take (frame_len one_sensor_config)
        (port_in (host_idle\<lparr>port_in := good_frame\<rparr>))) 0 = (r0, r1, r2)"
    and la: "last (accelLists st' ! 0) =
         \<lparr>ax = of_int r0 * (2 * FULL_SCALE one_sensor_config) / 65536 * 9.8,
          ay = of_int r1 * (2 * FULL_SCALE one_sensor_config) / 65536 * 9.8,
          az = of_int r2 * (2 * FULL_SCALE one_sensor_config) / 65536 * 9.8\<rparr>"
    and cg: "convertToG one_sensor_config 16384 = of_int 16384 * (2 * FULL_SCALE one_sensor_config) / 65536"
    using stored_sample_units [OF a b c d e, of 0 16384] by blast
  from raw g have "r0 = - 1" "r1 = 4660" "r2 = - 32768"
    by simp_all
  with la have "last (accelLists st' ! 0) =
         \<lparr>ax = of_int (- 1) * (2 * 16) / 65536 * 9.8,
          ay = of_int 4660 * (2 * 16) / 65536 * 9.8,
          az = of_int (- 32768) * (2 * 16) / 65536 * 9.8\<rparr>"
    by (simp add: f)
  moreover have "convertToG one_sensor_config 16384 = 8"
    using cg by (simp add: f)
  ultimately show ?thesis
    using r by blast
qed

section \<open>Quadrature detection\<close>

lemma calcSSandCCsum_loop_full:
  "DATA_LEN cfg \<le> length al \<Longrightarrow>
   calcSSandCCsum_loop cfg SS CC al i SSsum CCsum =
     Inr (SSsum + (\<Sum>k = i..<DATA_LEN cfg. SS ! k * az (al ! k)),
          CCsum + (\<Sum>k = i..<DATA_LEN cfg. CC ! k * az (al ! k)))"
proof (induction cfg SS CC al i SSsum CCsum rule: calcSSandCCsum_loop.induct)
  case (1 cfg SS CC al i SSsum CCsum)
  show ?case
  proof (cases "i < DATA_LEN cfg")
    case False
    then show ?thesis
      by (subst calcSSandCCsum_loop.simps) simp
  next
    case True
    then have il: "i < length al"
      using 1(2) by simp
    have "calcSSandCCsum_loop cfg SS CC al i SSsum CCsum =
        calcSSandCCsum_loop cfg SS CC al (i + 1)
          (SSsum + SS ! i * az (al ! i)) (CCsum + CC ! i * az (al ! i))"
      using True il by (subst calcSSandCCsum_loop.simps) simp
    also have "\<dots> = Inr (SSsum + SS ! i * az (al ! i) + (\<Sum>k = i + 1..<DATA_LEN cfg. SS ! k * az (al ! k)),
          CCsum + CC ! i * az (al ! i) + (\<Sum>k = i + 1..<DATA_LEN cfg. CC ! k * az (al ! k)))"
      using 1(1) [OF True il 1(2)] .
    finally show ?thesis
      using True by (simp add: sum.atLeast_Suc_lessThan add.assoc)
  qed
qed

lemma calcSSandCCsum_loop_short:
  "i \<le> length al \<Longrightarrow> length al < DATA_LEN cfg \<Longrightarrow>
   calcSSandCCsum_loop cfg SS CC al i SSsum CCsum = Inl IndexOutOfBounds"
proof (induction cfg SS CC al i SSsum CCsum rule: calcSSandCCsum_loop.induct)
  case (1 cfg SS CC al i SSsum CCsum)
  show ?case
  proof (cases "i < length al")
    case False
    with 1(2) have "i = length al" by simp
    with 1(3) show ?thesis
      by (subst calcSSandCCsum_loop.simps) simp
  next
    case True
    then have w: "i < DATA_LEN cfg"
      using 1(3) by simp
    have "calcSSandCCsum_loop cfg SS CC al i SSsum CCsum =
        calcSSandCCsum_loop cfg SS CC al (i + 1)
          (SSsum + SS ! i * az (al ! i)) (CCsum + CC ! i * az (al ! i))"
      using True w by (subst calcSSandCCsum_loop.simps) simp
    also have "\<dots> = Inl IndexOutOfBounds"
      using 1(1) [OF w True] True 1(3) by simp
    finally show ?thesis .
  qed
qed

lemma foldl_add_upt:
  fixes f :: "nat \<Rightarrow> real"
  shows "foldl (\<lambda>acc k. acc + f k) s [0..<n] = s + (\<Sum>k<n. f k)"
  by (induction n) simp_all

lemma setup_tables:
  "length (setup_SS cfg) = DATA_LEN cfg" "length (setup_CC cfg) = DATA_LEN cfg"
  "i < DATA_LEN cfg \<Longrightarrow>
     setup_SS cfg ! i = sin (2 * pi * VIBRATION_FREQ cfg * real i / SAMPLING_RATE cfg)"
  "i < DATA_LEN cfg \<Longrightarrow>
     setup_CC cfg ! i = cos (2 * pi * VIBRATION_FREQ cfg * real i / SAMPLING_RATE cfg)"
  by (simp_all add: setup_SS_def setup_CC_def)

lemma calcSSandCCsum_tables:
  assumes "DATA_LEN cfg \<le> length al"
  shows "calcSSandCCsum cfg (setup_SS cfg) (setup_CC cfg) al =
     Inr (\<Sum>i<DATA_LEN cfg.
            sin (2 * pi * VIBRATION_FREQ cfg * real i / SAMPLING_RATE cfg) * az (al ! i),
          \<Sum>i<DATA_LEN cfg.
            cos (2 * pi * VIBRATION_FREQ cfg * real i / SAMPLING_RATE cfg) * az (al ! i))"
  using assms
  by (simp add: calcSSandCCsum_def calcSSandCCsum_loop_full setup_tables atLeast0LessThan)

lemma calcSSandCCsum_loop_prefix:
  assumes "DATA_LEN cfg \<le> length al" and "j \<le> DATA_LEN cfg"
  shows "calcSSandCCsum_loop cfg SS CC al 0 0 0 =
     calcSSandCCsum_loop cfg SS CC al j
       (foldl (\<lambda>acc k. acc + SS ! k * az (al ! k)) 0 [0..<j])
       (foldl (\<lambda>acc k. acc + CC ! k * az (al ! k)) 0 [0..<j])"
  using assms(2)
proof (induction j)
  case 0
  then show ?case by simp
next
  case (Suc j)
  then have j: "j < DATA_LEN cfg" and jl: "j < length al"
    using assms(1) by simp_all
  have "calcSSandCCsum_loop cfg SS CC al j
       (foldl (\<lambda>acc k. acc + SS ! k * az (al ! k)) 0 [0..<j])
       (foldl (\<lambda>acc k. acc + CC ! k * az (al ! k)) 0 [0..<j]) =
     calcSSandCCsum_loop cfg SS CC al (Suc j)
       (foldl (\<lambda>acc k. acc + SS ! k * az (al ! k)) 0 [0..<Suc j])
       (foldl (\<lambda>acc k. acc + CC ! k * az (al ! k)) 0 [0..<Suc j])"
    using j jl by (subst calcSSandCCsum_loop.simps) simp
  then show ?case
    using Suc by simp
qed

lemma up8: "[0..<8] = [0, 1, 2, 3, 4, 5, 6, 7::nat]"
  by code_simp

lemma sin_turns: "sin (a + 2 * real n * pi) = sin a"
  by (simp add: sin_add)

lemma cos_turns: "cos (a + 2 * real n * pi) = cos a"
  by (simp add: cos_add)

lemma sin_quarter: "sin (5 * (pi * real (4 * q + r)) / 2) = sin (real r * pi / 2)"
proof -
  have "5 * (pi * real (4 * q + r)) / 2 = real r * pi / 2 + 2 * real (5 * q + r) * pi"
    by (simp add: field_simps)
  then show ?thesis
    by (simp only: sin_turns)
qed

lemma cos_quarter: "cos (5 * (pi * real (4 * q + r)) / 2) = cos (real r * pi / 2)"
proof -
  have "5 * (pi * real (4 * q + r)) / 2 = real r * pi / 2 + 2 * real (5 * q + r) * pi"
    by (simp add: field_simps)
  then show ?thesis
    by (simp only: cos_turns)
qed

lemma quarter_angles:
  "sin (5 * (pi * real (0::nat)) / 2) = 0" "cos (5 * (pi * real (0::nat)) / 2) = 1"
  "sin (5 * (pi * real (1::nat)) / 2) = 1" "cos (5 * (pi * real (1::nat)) / 2) = 0"
  "sin (5 * (pi * real (2::nat)) / 2) = 0" "cos (5 * (pi * real (2::nat)) / 2) = - 1"
  "sin (5 * (pi * real (3::nat)) / 2) = - 1" "cos (5 * (pi * real (3::nat)) / 2) = 0"
  "sin (5 * (pi * real (4::nat)) / 2) = 0" "cos (5 * (pi * real (4::nat)) / 2) = 1"
  "sin (5 * (pi * real (5::nat)) / 2) = 1" "cos (5 * (pi * real (5::nat)) / 2) = 0"
  "sin (5 * (pi * real (6::nat)) / 2) = 0" "cos (5 * (pi * real (6::nat)) / 2) = - 1"
  "sin (5 * (pi * real (7::nat)) / 2) = - 1" "cos (5 * (pi * real (7::nat)) / 2) = 0"
  using sin_quarter [of 0 0] cos_quarter [of 0 0] apply simp_all
  using sin_quarter [of 0 1] cos_quarter [of 0 1] apply simp_all
  using sin_quarter [of 0 2] cos_quarter [of 0 2] apply simp_all
  using sin_quarter [of 0 3] cos_quarter [of 0 3] sin_3over2_pi cos_3over2_pi apply (simp_all add: mult.commute)
  using sin_quarter [of 1 0] cos_quarter [of 1 0] apply simp_all
  using sin_quarter [of 1 1] cos_quarter [of 1 1] apply simp_all
  using sin_quarter [of 1 2] cos_quarter [of 1 2] apply simp_all
  using sin_quarter [of 1 3] cos_quarter [of 1 3] sin_3over2_pi cos_3over2_pi apply (simp_all add: mult.commute)
  done

lemma quarter_tables:
  "setup_SS quarter_turn_config = [0, 1, 0, - 1, 0, 1, 0, - 1]"
  "setup_CC quarter_turn_config = [1, 0, - 1, 0, 1, 0, - 1, 0]"
proof -
  have v: "VIBRATION_FREQ quarter_turn_config = 5" "SAMPLING_RATE quarter_turn_config = 4"
    by (simp_all add: quarter_turn_config_def)
  have a: "\<And>i. 1 * sin (2 * pi * 5 * (real i * 1 / 4) + 0) = sin (5 * (pi * real i) / 2)"
    by simp
  have b: "\<And>i. 1 * cos (2 * pi * 5 * (real i * 1 / 4) + 0) = cos (5 * (pi * real i) / 2)"
    by simp
  show "setup_SS quarter_turn_config = [0, 1, 0, - 1, 0, 1, 0, - 1]"
    unfolding setup_SS_def DATA_LEN_quarter_turn v a up8
    by (simp only: list.map quarter_angles)
  show "setup_CC quarter_turn_config = [1, 0, - 1, 0, 1, 0, - 1, 0]"
    unfolding setup_CC_def DATA_LEN_quarter_turn v b up8
    by (simp only: list.map quarter_angles)
qed

text \<open>
  Claim C7. The reference tables hold \<open>S[i] = sin(2\<pi> f i / fs)\<close> and
  \<open>C[i] = cos(2\<pi> f i / fs)\<close> for \<open>i\<close> in \<open>[0, W)\<close>. On a history that holds a full
  window, \<open>calcSSandCCsum\<close> returns \<open>SSsum = \<Sum> S[i] x[i]\<close> and
  \<open>CCsum = \<Sum> C[i] x[i]\<close> over the \<open>az\<close> values \<open>x\<close> of the first \<open>W\<close> samples. Its loop
  goes through the indices from 0 upwards: when it is at index \<open>j\<close> its two accumulators
  hold the sums over the indices below \<open>j\<close>, added in that order, one step at index \<open>j\<close>
  adds \<open>S[j] x[j]\<close> and \<open>C[j] x[j]\<close>, and at index \<open>W\<close> it returns the accumulators.
  \<open>detectPhase\<close> is \<open>atan2(CCsum, SSsum)\<close> and \<open>detectAmp\<close> is
  \<open>2 sqrt(SSsum\<^sup>2 + CCsum\<^sup>2) / W\<close>. The sums depend on nothing but the window and the
  tables. (Real arithmetic stands for Java's \<open>float\<close>.)
\<close>

theorem quadrature_detector:
  assumes "DATA_LEN cfg \<le> length al" and "0 < DATA_LEN cfg"
  shows "calcSSandCCsum cfg (setup_SS cfg) (setup_CC cfg) al =
     Inr (\<Sum>i<DATA_LEN cfg.
            sin (2 * pi * VIBRATION_FREQ cfg * real i / SAMPLING_RATE cfg) * az (al ! i),
          \<Sum>i<DATA_LEN cfg.
            cos (2 * pi * VIBRATION_FREQ cfg * real i / SAMPLING_RATE cfg) * az (al ! i))
   \<and> calcSSandCCsum cfg (setup_SS cfg) (setup_CC cfg) al =
       Inr (foldl (\<lambda>acc i. acc + setup_SS cfg ! i * az (al ! i)) 0 [0..<DATA_LEN cfg],
            foldl (\<lambda>acc i. acc + setup_CC cfg ! i * az (al ! i)) 0 [0..<DATA_LEN cfg])
   \<and> (\<forall>j \<le> DATA_LEN cfg.
         calcSSandCCsum cfg (setup_SS cfg) (setup_CC cfg) al =
           calcSSandCCsum_loop cfg (setup_SS cfg) (setup_CC cfg) al j
             (foldl (\<lambda>acc i. acc + setup_SS cfg ! i * az (al ! i)) 0 [0..<j])
             (foldl (\<lambda>acc i. acc + setup_CC cfg ! i * az (al ! i)) 0 [0..<j]))
   \<and> (\<forall>j < DATA_LEN cfg.
         calcSSandCCsum_loop cfg (setup_SS cfg) (setup_CC cfg) al j SSsum CCsum =
           calcSSandCCsum_loop cfg (setup_SS cfg) (setup_CC cfg) al (j + 1)
             (SSsum + setup_SS cfg ! j * az (al ! j)) (CCsum + setup_CC cfg ! j * az (al ! j)))
   \<and> calcSSandCCsum_loop cfg (setup_SS cfg) (setup_CC cfg) al (DATA_LEN cfg) SSsum CCsum
       = Inr (SSsum, CCsum)
   \<and> length (setup_SS cfg) = DATA_LEN cfg \<and> length (setup_CC cfg) = DATA_LEN cfg
   \<and> (\<forall>i < DATA_LEN cfg.
         setup_SS cfg ! i = sin (2 * pi * VIBRATION_FREQ cfg * real i / SAMPLING_RATE cfg)
         \<and> setup_CC cfg ! i = cos (2 * pi * VIBRATION_FREQ cfg * real i / SAMPLING_RATE cfg))
   \<and> detectPhase SSsum CCsum = atan2 CCsum SSsum
   \<and> detectAmp cfg SSsum CCsum = 2 * sqrt (SSsum\<^sup>2 + CCsum\<^sup>2) / real (DATA_LEN cfg)
   \<and> (take (DATA_LEN cfg) al' = take (DATA_LEN cfg) al \<longrightarrow>
        calcSSandCCsum cfg (setup_SS cfg) (setup_CC cfg) al'
        = calcSSandCCsum cfg (setup_SS cfg) (setup_CC cfg) al)"
proof -
  have dep: "calcSSandCCsum cfg (setup_SS cfg) (setup_CC cfg) al'
        = calcSSandCCsum cfg (setup_SS cfg) (setup_CC cfg) al"
    if t: "take (DATA_LEN cfg) al' = take (DATA_LEN cfg) al"
  proof -
    have "length (take (DATA_LEN cfg) al') = DATA_LEN cfg"
      using assms(1) t by simp
    then have l': "DATA_LEN cfg \<le> length al'"
      by simp
    have "al' ! i = al ! i" if "i < DATA_LEN cfg" for i
      using nth_take [OF that, of al'] nth_take [OF that, of al] t by simp
    then show ?thesis
      by (simp add: calcSSandCCsum_tables [OF l'] calcSSandCCsum_tables [OF assms(1)])
  qed
  have tr: "calcSSandCCsum cfg (setup_SS cfg) (setup_CC cfg) al =
           calcSSandCCsum_loop cfg (setup_SS cfg) (setup_CC cfg) al j
             (foldl (\<lambda>acc i. acc + setup_SS cfg ! i * az (al ! i)) 0 [0..<j])
             (foldl (\<lambda>acc i. acc + setup_CC cfg ! i * az (al ! i)) 0 [0..<j])"
    if "j \<le> DATA_LEN cfg" for j
    unfolding calcSSandCCsum_def
    by (rule calcSSandCCsum_loop_prefix [OF assms(1) that])
  have stop: "calcSSandCCsum_loop cfg (setup_SS cfg) (setup_CC cfg) al (DATA_LEN cfg) s c
       = Inr (s, c)" for s c
    by (subst calcSSandCCsum_loop.simps) simp
  have step: "calcSSandCCsum_loop cfg (setup_SS cfg) (setup_CC cfg) al j SSsum CCsum =
           calcSSandCCsum_loop cfg (setup_SS cfg) (setup_CC cfg) al (j + 1)
             (SSsum + setup_SS cfg ! j * az (al ! j)) (CCsum + setup_CC cfg ! j * az (al ! j))"
    if "j < DATA_LEN cfg" for j
    using that assms(1) by (subst calcSSandCCsum_loop.simps) simp
  have fin: "calcSSandCCsum cfg (setup_SS cfg) (setup_CC cfg) al =
       Inr (foldl (\<lambda>acc i. acc + setup_SS cfg ! i * az (al ! i)) 0 [0..<DATA_LEN cfg],
            foldl (\<lambda>acc i. acc + setup_CC cfg ! i * az (al ! i)) 0 [0..<DATA_LEN cfg])"
    using tr [of "DATA_LEN cfg"] by (simp only: stop order_refl)
  have tabs: "\<forall>i < DATA_LEN cfg.
         setup_SS cfg ! i = sin (2 * pi * VIBRATION_FREQ cfg * real i / SAMPLING_RATE cfg)
         \<and> setup_CC cfg ! i = cos (2 * pi * VIBRATION_FREQ cfg * real i / SAMPLING_RATE cfg)"
    by (simp add: setup_tables)
  have ph: "detectPhase SSsum CCsum = atan2 CCsum SSsum"
    by (simp add: detectPhase_def)
  have am: "detectAmp cfg SSsum CCsum = 2 * sqrt (SSsum\<^sup>2 + CCsum\<^sup>2) / real (DATA_LEN cfg)"
    by (simp add: detectAmp_def power2_eq_square)
  show ?thesis
    apply (intro conjI allI impI)
              apply (rule calcSSandCCsum_tables [OF assms(1)])
             apply (rule fin)
            apply (erule tr)
           apply (erule step)
          apply (rule stop)
         apply (rule setup_tables(1))
        apply (rule setup_tables(2))
       apply (simp add: setup_tables)
      apply (simp add: setup_tables)
     apply (rule ph)
    apply (rule am)
    apply (erule dep)
    done
qed

theorem quadrature_detector_witness:
  "setup_SS quarter_turn_config = [0, 1, 0, - 1, 0, 1, 0, - 1]
   \<and> setup_CC quarter_turn_config = [1, 0, - 1, 0, 1, 0, - 1, 0]
   \<and> calcSSandCCsum quarter_turn_config (setup_SS quarter_turn_config)
        (setup_CC quarter_turn_config) ramp_window = Inr (- 4, - 4)
   \<and> calcSSandCCsum_loop quarter_turn_config (setup_SS quarter_turn_config)
        (setup_CC quarter_turn_config) ramp_window 3 2 (- 2) = Inr (- 4, - 4)
   \<and> calcSSandCCsum_loop quarter_turn_config (setup_SS quarter_turn_config)
        (setup_CC quarter_turn_config) ramp_window 3 2 (- 2)
      = calcSSandCCsum_loop quarter_turn_config (setup_SS quarter_turn_config)
        (setup_CC quarter_turn_config) ramp_window 4 (- 2) (- 2)
   \<and> detectAmp quarter_turn_config (- 4) (- 4) = sqrt 2
   \<and> detectPhase (- 4) (- 4) = - (3 * pi / 4)"
proof -
  have a: "DATA_LEN quarter_turn_config \<le> length ramp_window"
    and b: "0 < DATA_LEN quarter_turn_config"
    by (simp_all add: DATA_LEN_quarter_turn ramp_window_def)
  note h = quadrature_detector [OF a b, of "- 4" "- 4" ramp_window]
  note k = quadrature_detector [OF a b, of 2 "- 2" ramp_window]
  have s: "sqrt 32 = 4 * sqrt 2"
    using real_sqrt_mult [of 16 2] real_sqrt_abs [of 4] by simp
  have f: "calcSSandCCsum quarter_turn_config (setup_SS quarter_turn_config)
        (setup_CC quarter_turn_config) ramp_window = Inr (- 4, - 4)"
    using h [THEN conjunct2, THEN conjunct1]
    by (simp add: DATA_LEN_quarter_turn up8 quarter_tables ramp_window_def)
  have three: "(3::nat) \<le> DATA_LEN quarter_turn_config" "(3::nat) < DATA_LEN quarter_turn_config"
    by (simp_all add: DATA_LEN_quarter_turn)
  have up3: "[0..<3] = [0, 1, 2::nat]"
    by code_simp
  have p: "foldl (\<lambda>acc i. acc + setup_SS quarter_turn_config ! i * az (ramp_window ! i)) 0 [0..<3] = 2"
    "foldl (\<lambda>acc i. acc + setup_CC quarter_turn_config ! i * az (ramp_window ! i)) 0 [0..<3] = - 2"
    by (simp_all add: up3 quarter_tables ramp_window_def)
  from h [THEN conjunct2, THEN conjunct2, THEN conjunct1] three(1)
  have "calcSSandCCsum quarter_turn_config (setup_SS quarter_turn_config)
        (setup_CC quarter_turn_config) ramp_window =
      calcSSandCCsum_loop quarter_turn_config (setup_SS quarter_turn_config)
        (setup_CC quarter_turn_config) ramp_window 3
             (foldl (\<lambda>acc i. acc + setup_SS quarter_turn_config ! i * az (ramp_window ! i)) 0 [0..<3])
             (foldl (\<lambda>acc i. acc + setup_CC quarter_turn_config ! i * az (ramp_window ! i)) 0 [0..<3])"
    by blast
  then have m: "calcSSandCCsum_loop quarter_turn_config (setup_SS quarter_turn_config)
        (setup_CC quarter_turn_config) ramp_window 3 2 (- 2) = Inr (- 4, - 4)"
    by (simp only: f p)
  have q: "2 + setup_SS quarter_turn_config ! 3 * az (ramp_window ! 3) = - 2"
    "- 2 + setup_CC quarter_turn_config ! 3 * az (ramp_window ! 3) = - 2"
    by (simp_all add: quarter_tables ramp_window_def)
  from k [THEN conjunct2, THEN conjunct2, THEN conjunct2, THEN conjunct1] three(2)
  have "calcSSandCCsum_loop quarter_turn_config (setup_SS quarter_turn_config)
        (setup_CC quarter_turn_config) ramp_window 3 2 (- 2)
      = calcSSandCCsum_loop quarter_turn_config (setup_SS quarter_turn_config)
        (setup_CC quarter_turn_config) ramp_window (3 + 1)
          (2 + setup_SS quarter_turn_config ! 3 * az (ramp_window ! 3))
          (- 2 + setup_CC quarter_turn_config ! 3 * az (ramp_window ! 3))"
    by blast
  then have n: "calcSSandCCsum_loop quarter_turn_config (setup_SS quarter_turn_config)
        (setup_CC quarter_turn_config) ramp_window 3 2 (- 2)
      = calcSSandCCsum_loop quarter_turn_config (setup_SS quarter_turn_config)
        (setup_CC quarter_turn_config) ramp_window 4 (- 2) (- 2)"
    by (simp only: q) simp
  from h have am: "detectAmp quarter_turn_config (- 4) (- 4) = sqrt 2"
    by (simp add: DATA_LEN_quarter_turn s)
  from h have ph: "detectPhase (- 4) (- 4) = - (3 * pi / 4)"
    by (simp add: atan2_def arctan_one)
  show ?thesis
    using quarter_tables f m n am ph by blast
qed

section \<open>Recorded output\<close>

lemma write_rows_eq:
  "length ts \<le> length al \<Longrightarrow> \<not> closed w \<Longrightarrow>
   write_rows ts al i w =
     Inr (w\<lparr>lines := lines w @ map (\<lambda>k. measurement_row (ts ! k) (al ! k)) [i..<length ts]\<rparr>)"
proof (induction ts al i w rule: write_rows.induct)
  case (1 ts al i w)
  show ?case
  proof (cases "i < length ts")
    case False
    then show ?thesis
      by (subst write_rows.simps) simp
  next
    case True
    then have il: "i < length al"
      using 1(2) by simp
    define w' where "w' = println w (CellLine [IntCell (ts ! i), Fixed3Cell (az (al ! i))])"
    have w': "w' = w\<lparr>lines := lines w @ [measurement_row (ts ! i) (al ! i)]\<rparr>"
      using 1(3) by (simp add: w'_def println_def measurement_row_def)
    then have nc: "\<not> closed w'"
      using 1(3) by simp
    have "write_rows ts al i w = write_rows ts al (i + 1) w'"
      using True il by (subst write_rows.simps) (simp add: w'_def)
    also have "\<dots> = Inr (w'\<lparr>lines := lines w'
        @ map (\<lambda>k. measurement_row (ts ! k) (al ! k)) [i + 1..<length ts]\<rparr>)"
      using 1(1) [OF True il 1(2)] nc by (simp add: w'_def)
    finally show ?thesis
      using True by (simp add: w' upt_conv_Cons)
  qed
qed

lemma calcSSandCCsum_full:
  "DATA_LEN cfg \<le> length al \<Longrightarrow>
   calcSSandCCsum cfg SS CC al =
     Inr (\<Sum>k<DATA_LEN cfg. SS ! k * az (al ! k), \<Sum>k<DATA_LEN cfg. CC ! k * az (al ! k))"
  by (simp add: calcSSandCCsum_def calcSSandCCsum_loop_full atLeast0LessThan)

lemma sweep_loop_eq:
  "(\<And>a. DATA_LEN cfg \<le> length (fst (obs a))) \<Longrightarrow> \<not> closed w \<Longrightarrow>
   sweep_loop cfg SS CC obs sineAmp w =
     Inr (w\<lparr>lines := lines w @ map (sweep_row cfg SS CC obs) (sweep_settings sineAmp)\<rparr>)"
proof (induction cfg SS CC obs sineAmp w rule: sweep_loop.induct)
  case (1 cfg SS CC obs sineAmp w)
  show ?case
  proof (cases "sineAmp \<le> 1.0")
    case False
    then have "sweep_loop cfg SS CC obs sineAmp w = Inr w"
      by (subst sweep_loop.simps) simp
    moreover have "sweep_settings sineAmp = []"
      using False by (subst sweep_settings.simps) simp
    ultimately show ?thesis by simp
  next
    case True
    define SSsum where "SSsum = (\<Sum>k<DATA_LEN cfg. SS ! k * az (fst (obs sineAmp) ! k))"
    define CCsum where "CCsum = (\<Sum>k<DATA_LEN cfg. CC ! k * az (fst (obs sineAmp) ! k))"
    have c: "calcSSandCCsum cfg SS CC (fst (obs sineAmp)) = Inr (SSsum, CCsum)"
      using calcSSandCCsum_full [OF 1(2) [of sineAmp]] by (simp add: SSsum_def CCsum_def)
    define w' where "w' = println w (CellLine [FloatCell (VIBRATION_FREQ cfg), FloatCell sineAmp,
        FloatCell (detectAmp cfg SSsum CCsum), FloatCell (snd (obs sineAmp))])"
    have w': "w' = w\<lparr>lines := lines w @ [sweep_row cfg SS CC obs sineAmp]\<rparr>"
      using 1(3) by (simp add: w'_def println_def sweep_row_def SSsum_def CCsum_def)
    then have nc: "\<not> closed w'"
      using 1(3) by simp
    have "sweep_loop cfg SS CC obs sineAmp w = sweep_loop cfg SS CC obs (sineAmp + 0.01) w'"
      using True c by (subst sweep_loop.simps) (simp add: w'_def Let_def)
    also have "\<dots> = Inr (w'\<lparr>lines := lines w'
        @ map (sweep_row cfg SS CC obs) (sweep_settings (sineAmp + 0.01))\<rparr>)"
      using 1(1) [OF True c refl refl refl 1(2)] nc
      by (simp add: w'_def)
    moreover have "sweep_settings sineAmp = sineAmp # sweep_settings (sineAmp + 0.01)"
      using True by (subst sweep_settings.simps) simp
    ultimately show ?thesis
      by (simp add: w')
  qed
qed


lemma keyPressed_o:
  assumes "\<not> isAccelMeasure st" and "accelOutputWriter st = Some w" and "\<not> closed w"
    and "length (timestamp st) \<le> length (accelMeasureList st)"
  shows "keyPressed CHR ''o'' st =
     Inr (st\<lparr>isRealtimeRec := False,
        accelOutputWriter := Some \<lparr>lines = lines w @ TextLine ''timestamp,az''
            # map (\<lambda>k. measurement_row (timestamp st ! k) (accelMeasureList st ! k))
                [0..<length (timestamp st)],
          closed = True\<rparr>\<rparr>)"
proof -
  define w1 where "w1 = println w (TextLine ''timestamp,az'')"
  have w1: "w1 = w\<lparr>lines := lines w @ [TextLine ''timestamp,az'']\<rparr>"
    using assms(3) by (simp add: w1_def println_def)
  then have nc: "\<not> closed w1"
    using assms(3) by simp
  have rows: "write_rows (timestamp st) (accelMeasureList st) 0 w1 =
      Inr (w1\<lparr>lines := lines w1
        @ map (\<lambda>k. measurement_row (timestamp st ! k) (accelMeasureList st ! k))
            [0..<length (timestamp st)]\<rparr>)"
    using write_rows_eq [OF assms(4) nc] .
  show ?thesis
    using assms(1,2)
    by (simp add: keyPressed_def Let_def w1_def [symmetric] rows close_def) (simp add: w1)
qed

lemma measureAmpWithQD_eq:
  assumes "\<And>a. DATA_LEN cfg \<le> length (fst (obs a))"
  shows "measureAmpWithQD cfg SS CC obs =
     Inr \<lparr>lines = TextLine ''frequency,amp_setting,qd_amp [m/s^2],max_amp [m/s^2]''
            # map (sweep_row cfg SS CC obs) (sweep_settings 0),
          closed = True\<rparr>"
proof -
  define w0 where "w0 = println createWriter
      (TextLine ''frequency,amp_setting,qd_amp [m/s^2],max_amp [m/s^2]'')"
  have w0: "w0 = \<lparr>lines = [TextLine ''frequency,amp_setting,qd_amp [m/s^2],max_amp [m/s^2]''],
      closed = False\<rparr>"
    by (simp add: w0_def println_def createWriter_def)
  then have nc: "\<not> closed w0"
    by simp
  have "sweep_loop cfg SS CC obs 0 w0 =
      Inr (w0\<lparr>lines := lines w0 @ map (sweep_row cfg SS CC obs) (sweep_settings 0)\<rparr>)"
    using sweep_loop_eq [OF assms nc] .
  then show ?thesis
    by (simp add: measureAmpWithQD_def w0_def [symmetric] close_def) (simp add: w0)
qed

lemma serialEvent_records:
  assumes "isSerialReady st" and "frame_len cfg \<le> length (port_in st)"
    and "SENSOR_NUM cfg \<le> length (accelLists st)"
    and "measurementSensor cfg < SENSOR_NUM cfg" and "recording st"
  shows "\<exists>st'. serialEvent cfg now st = Inr st'
     \<and> accelMeasureList st' = accelMeasureList st
          @ [sample_at cfg (take (frame_len cfg) (port_in st)) (measurementSensor cfg)]
     \<and> timestamp st' = timestamp st @ [now]"
proof -
  obtain st' where r: "serialEvent cfg now st = Inr st'"
    and e: "block_effect cfg now (take (frame_len cfg) (port_in st)) 0
          (st\<lparr>port_in := drop (frame_len cfg) (port_in st)\<rparr>) st'"
    using serialEvent_block [OF assms(1,2,3), of now] by blast
  have "recording (st\<lparr>port_in := drop (frame_len cfg) (port_in st)\<rparr>)"
    using assms(5) by (simp add: recording_def)
  then have "accelMeasureList st' = accelMeasureList st
          @ [sample_at cfg (take (frame_len cfg) (port_in st)) (measurementSensor cfg)]"
    and "timestamp st' = timestamp st @ [now]"
    using e assms(4) by (simp_all add: block_effect_def)
  with r show ?thesis by blast
qed

text \<open>
  Claim C9, as the code has it. Stopping a recording (key \<open>o\<close>) prints the header
  \<open>timestamp,az\<close> and then exactly one row per recorded sample, in recording order, each
  row holding the timestamp and the \<open>az\<close> value of the sample (two columns; \<open>ax\<close> and
  \<open>ay\<close> are not written), and closes the writer. Starting a recording (key \<open>r\<close>)
  opens a new writer and empties the recorded samples and timestamps, and while recording
  each block that \<open>serialEvent\<close> takes adds exactly one sample of the recorded sensor
  with one timestamp. The sweep prints the header
  \<open>frequency,amp_setting,qd_amp [m/s^2],max_amp [m/s^2]\<close> and then exactly one row per
  amplitude setting, each with the four values frequency, amplitude setting, quadrature
  amplitude and peak amplitude.
\<close>

theorem recording_and_sweep_logs:
  "(\<not> isAccelMeasure st \<and> accelOutputWriter st = Some w \<and> \<not> closed w
      \<and> length (timestamp st) \<le> length (accelMeasureList st) \<longrightarrow>
      keyPressed CHR ''o'' st =
        Inr (st\<lparr>isRealtimeRec := False,
          accelOutputWriter := Some \<lparr>lines = lines w @ TextLine ''timestamp,az''
              # map (\<lambda>k. measurement_row (timestamp st ! k) (accelMeasureList st ! k))
                  [0..<length (timestamp st)],
            closed = True\<rparr>\<rparr>))
   \<and> (\<not> isAccelMeasure st \<longrightarrow>
        keyPressed CHR ''r'' st =
          Inr (st\<lparr>accelOutputWriter := Some createWriter, accelMeasureList := [],
            timestamp := [], isRealtimeRec := True\<rparr>))
   \<and> (isSerialReady st \<and> frame_len cfg \<le> length (port_in st)
        \<and> SENSOR_NUM cfg \<le> length (accelLists st)
        \<and> measurementSensor cfg < SENSOR_NUM cfg \<and> recording st \<longrightarrow>
        (\<exists>st'. serialEvent cfg now st = Inr st'
           \<and> accelMeasureList st' = accelMeasureList st
                @ [sample_at cfg (take (frame_len cfg) (port_in st)) (measurementSensor cfg)]
           \<and> timestamp st' = timestamp st @ [now]))
   \<and> ((\<forall>a. DATA_LEN cfg \<le> length (fst (obs a))) \<longrightarrow>
        measureAmpWithQD cfg SS CC obs =
          Inr \<lparr>lines = TextLine ''frequency,amp_setting,qd_amp [m/s^2],max_amp [m/s^2]''
                 # map (sweep_row cfg SS CC obs) (sweep_settings 0),
               closed = True\<rparr>)"
proof (intro conjI impI)
  assume "\<not> isAccelMeasure st \<and> accelOutputWriter st = Some w \<and> \<not> closed w
      \<and> length (timestamp st) \<le> length (accelMeasureList st)"
  then show "keyPressed CHR ''o'' st =
        Inr (st\<lparr>isRealtimeRec := False,
          accelOutputWriter := Some \<lparr>lines = lines w @ TextLine ''timestamp,az''
              # map (\<lambda>k. measurement_row (timestamp st ! k) (accelMeasureList st ! k))
                  [0..<length (timestamp st)],
            closed = True\<rparr>\<rparr>)"
    using keyPressed_o [of st w] by blast
next
  assume "\<not> isAccelMeasure st"
  then show "keyPressed CHR ''r'' st =
          Inr (st\<lparr>accelOutputWriter := Some createWriter, accelMeasureList := [],
            timestamp := [], isRealtimeRec := True\<rparr>)"
    by (simp add: keyPressed_def)
next
  assume "isSerialReady st \<and> frame_len cfg \<le> length (port_in st)
        \<and> SENSOR_NUM cfg \<le> length (accelLists st)
        \<and> measurementSensor cfg < SENSOR_NUM cfg \<and> recording st"
  then show "\<exists>st'. serialEvent cfg now st = Inr st'
           \<and> accelMeasureList st' = accelMeasureList st
                @ [sample_at cfg (take (frame_len cfg) (port_in st)) (measurementSensor cfg)]
           \<and> timestamp st' = timestamp st @ [now]"
    using serialEvent_records [of st cfg now] by blast
next
  assume "\<forall>a. DATA_LEN cfg \<le> length (fst (obs a))"
  then show "measureAmpWithQD cfg SS CC obs =
          Inr \<lparr>lines = TextLine ''frequency,amp_setting,qd_amp [m/s^2],max_amp [m/s^2]''
                 # map (sweep_row cfg SS CC obs) (sweep_settings 0),
               closed = True\<rparr>"
    using measureAmpWithQD_eq [of cfg obs SS CC] by blast
qed

theorem recording_and_sweep_logs_witness:
  "keyPressed CHR ''o'' host_recorded =
     Inr (host_recorded\<lparr>isRealtimeRec := False,
        accelOutputWriter := Some \<lparr>lines = [TextLine ''timestamp,az'',
            CellLine [IntCell 5, Fixed3Cell 3]], closed = True\<rparr>\<rparr>)
   \<and> keyPressed CHR ''r'' host_idle =
       Inr (host_idle\<lparr>accelOutputWriter := Some createWriter, accelMeasureList := [],
         timestamp := [], isRealtimeRec := True\<rparr>)
   \<and> (\<exists>st'. serialEvent one_sensor_config 42 (host_recorded\<lparr>port_in := good_frame\<rparr>) = Inr st'
        \<and> timestamp st' = [5, 42])
   \<and> measureAmpWithQD tiny_config (setup_SS tiny_config) (setup_CC tiny_config)
         (\<lambda>a. ([\<lparr>ax = 0, ay = 0, az = 3\<rparr>], 7)) =
       Inr \<lparr>lines = TextLine ''frequency,amp_setting,qd_amp [m/s^2],max_amp [m/s^2]''
              # map (sweep_row tiny_config (setup_SS tiny_config) (setup_CC tiny_config)
                     (\<lambda>a. ([\<lparr>ax = 0, ay = 0, az = 3\<rparr>], 7))) (sweep_settings 0),
            closed = True\<rparr>"
proof -
  have o: "\<not> isAccelMeasure host_recorded \<and> accelOutputWriter host_recorded = Some createWriter
      \<and> \<not> closed createWriter
      \<and> length (timestamp host_recorded) \<le> length (accelMeasureList host_recorded)"
    by (simp add: host_recorded_def host_idle_def createWriter_def)
  have r: "\<not> isAccelMeasure host_idle"
    by (simp add: host_idle_def)
  have e: "isSerialReady (host_recorded\<lparr>port_in := good_frame\<rparr>)
      \<and> frame_len one_sensor_config \<le> length (port_in (host_recorded\<lparr>port_in := good_frame\<rparr>))
      \<and> SENSOR_NUM one_sensor_config \<le> length (accelLists (host_recorded\<lparr>port_in := good_frame\<rparr>))
      \<and> measurementSensor one_sensor_config < SENSOR_NUM one_sensor_config
      \<and> recording (host_recorded\<lparr>port_in := good_frame\<rparr>)"
  proof -
    have "frame_len one_sensor_config \<le> length good_frame"
      by (simp add: frame_len_one_sensor good_frame_def)
    moreover have "SENSOR_NUM one_sensor_config = 1" "measurementSensor one_sensor_config = 0"
      by (simp_all add: one_sensor_config_def)
    ultimately show ?thesis
      by (simp add: host_recorded_def host_idle_def recording_def)
  qed
  have q: "\<forall>a::real. DATA_LEN tiny_config \<le> length (fst ([\<lparr>ax = 0, ay = 0, az = 3\<rparr>], 7::real))"
    by (simp add: DATA_LEN_tiny)
  have rows: "lines createWriter @ TextLine ''timestamp,az''
            # map (\<lambda>k. measurement_row (timestamp host_recorded ! k)
                  (accelMeasureList host_recorded ! k)) [0..<length (timestamp host_recorded)]
      = [TextLine ''timestamp,az'', CellLine [IntCell 5, Fixed3Cell 3]]"
    by (simp add: host_recorded_def createWriter_def measurement_row_def)
  have t: "timestamp (host_recorded\<lparr>port_in := good_frame\<rparr>) = [5]"
    by (simp add: host_recorded_def)
  note h1 = recording_and_sweep_logs [of host_recorded createWriter one_sensor_config 0
      "\<lambda>a. ([\<lparr>ax = 0, ay = 0, az = 3\<rparr>], 7)" "setup_SS tiny_config" "setup_CC tiny_config"]
  note h2 = recording_and_sweep_logs [of host_idle createWriter one_sensor_config 0
      "\<lambda>a. ([\<lparr>ax = 0, ay = 0, az = 3\<rparr>], 7)" "setup_SS tiny_config" "setup_CC tiny_config"]
  note h3 = recording_and_sweep_logs [of "host_recorded\<lparr>port_in := good_frame\<rparr>" createWriter
      one_sensor_config 42
      "\<lambda>a. ([\<lparr>ax = 0, ay = 0, az = 3\<rparr>], 7)" "setup_SS tiny_config" "setup_CC tiny_config"]
  note h4 = recording_and_sweep_logs [of host_idle createWriter tiny_config 0
      "\<lambda>a. ([\<lparr>ax = 0, ay = 0, az = 3\<rparr>], 7)" "setup_SS tiny_config" "setup_CC tiny_config"]
  have c1: "keyPressed CHR ''o'' host_recorded =
     Inr (host_recorded\<lparr>isRealtimeRec := False,
        accelOutputWriter := Some \<lparr>lines = [TextLine ''timestamp,az'',
            CellLine [IntCell 5, Fixed3Cell 3]], closed = True\<rparr>\<rparr>)"
    using h1 o by (simp only: rows) blast
  have c2: "keyPressed CHR ''r'' host_idle =
       Inr (host_idle\<lparr>accelOutputWriter := Some createWriter, accelMeasureList := [],
         timestamp := [], isRealtimeRec := True\<rparr>)"
    using h2 r by blast
  have c3: "\<exists>st'. serialEvent one_sensor_config 42 (host_recorded\<lparr>port_in := good_frame\<rparr>) = Inr st'
        \<and> timestamp st' = [5, 42]"
    using h3 e by (simp only: t) auto
  have c4: "measureAmpWithQD tiny_config (setup_SS tiny_config) (setup_CC tiny_config)
         (\<lambda>a. ([\<lparr>ax = 0, ay = 0, az = 3\<rparr>], 7)) =
       Inr \<lparr>lines = TextLine ''frequency,amp_setting,qd_amp [m/s^2],max_amp [m/s^2]''
              # map (sweep_row tiny_config (setup_SS tiny_config) (setup_CC tiny_config)
                     (\<lambda>a. ([\<lparr>ax = 0, ay = 0, az = 3\<rparr>], 7))) (sweep_settings 0),
            closed = True\<rparr>"
    using h4 q by blast
  from c1 c2 c3 c4 show ?thesis by blast
qed

text \<open>
  The claim as stated names the columns \<open>timestamp, ax, ay, az\<close>; the log of a recording
  with one sample has the header \<open>timestamp,az\<close> and a row of two cells.
\<close>

theorem recorded_columns_counterexample:
  "keyPressed CHR ''o'' host_recorded =
     Inr (host_recorded\<lparr>isRealtimeRec := False,
        accelOutputWriter := Some \<lparr>lines = [TextLine ''timestamp,az'',
            CellLine [IntCell 5, Fixed3Cell 3]], closed = True\<rparr>\<rparr>)
   \<and> TextLine ''timestamp,az'' \<noteq> TextLine ''timestamp,ax,ay,az''
   \<and> length [IntCell 5, Fixed3Cell 3] = 2"
proof -
  have "keyPressed CHR ''o'' host_recorded =
     Inr (host_recorded\<lparr>isRealtimeRec := False,
        accelOutputWriter := Some \<lparr>lines = lines createWriter @ TextLine ''timestamp,az''
            # map (\<lambda>k. measurement_row (timestamp host_recorded ! k)
                  (accelMeasureList host_recorded ! k)) [0..<length (timestamp host_recorded)],
          closed = True\<rparr>\<rparr>)"
    by (rule keyPressed_o) (simp_all add: host_recorded_def host_idle_def createWriter_def)
  moreover have "lines createWriter @ TextLine ''timestamp,az''
            # map (\<lambda>k. measurement_row (timestamp host_recorded ! k)
                  (accelMeasureList host_recorded ! k)) [0..<length (timestamp host_recorded)]
      = [TextLine ''timestamp,az'', CellLine [IntCell 5, Fixed3Cell 3]]"
    by (simp add: host_recorded_def createWriter_def measurement_row_def)
  ultimately show ?thesis
    by simp
qed

section \<open>Sequence gaps\<close>

text \<open>
  Claim C4, on the tracker modelled from the specification. With a last accepted number,
  a gap of \<open>((new_seq - last_seq) mod 65536) - 1\<close> is reported exactly when
  \<open>(new_seq - last_seq) mod 65536\<close> is not 1; nothing is reported on the first frame; the
  last number becomes the new one in every case. The accepted numbers 10, 11, 13 give
  one report, a gap of 1, and the step from 65535 to 0 gives no report, its gap being 0.
\<close>

theorem sequence_gap_reports:
  "fst (track_seq (Some last_seq) new_seq) =
     (if (new_seq - last_seq) mod 65536 \<noteq> 1
      then Some ((new_seq - last_seq) mod 65536 - 1) else None)
   \<and> fst (track_seq None new_seq) = None
   \<and> snd (track_seq prev new_seq) = Some new_seq
   \<and> track_all None [10, 11, 13] = ([1], Some 13)
   \<and> track_all (Some 65535) [0] = ([], Some 0)
   \<and> seq_gap 11 13 = 1
   \<and> seq_gap 65535 0 = 0"
  by (simp add: track_seq_def seq_gap_def split: option.split)

end
